theory Spec2Isabelle
  imports Main "HOL-Library.AList"
begin

section \<open>Path strings\<close>

text \<open>
  The program manipulates path strings with the POSIX flavour of Node's \<open>path\<close> module
  (\<open>normalize\<close>, \<open>basename\<close>, \<open>dirname\<close>, \<open>isAbsolute\<close>, \<open>relative\<close>). A string is
  modelled by the list of the bytes of its UTF-8 encoding, so that \<open>Buffer.byteLength\<close>
  is \<open>length\<close>; the separator is the single byte \<open>/\<close>.
\<close>

text \<open>\<open>String.prototype.split('/')\<close>: the pieces between separators, empty ones kept.\<close>

fun split_slash :: "string \<Rightarrow> string list" where
  "split_slash [] = [[]]"
| "split_slash (c # cs) =
     (if c = CHR ''/'' then [] # split_slash cs
      else (case split_slash cs of [] \<Rightarrow> [[c]] | w # ws \<Rightarrow> (c # w) # ws))"

fun join_slash :: "string list \<Rightarrow> string" where
  "join_slash [] = []"
| "join_slash [w] = w"
| "join_slash (w # v # ws) = w @ ''/'' @ join_slash (v # ws)"

text \<open>
  Modelled from the spec: \<open>normalizeString\<close> of the path library, which is not under
  \<open>src/\<close>. It walks over the segments of the path: an empty segment and \<open>.\<close> are
  dropped; \<open>..\<close> removes the segment before it, unless there is none or it is \<open>..\<close>
  itself, in which case \<open>..\<close> is kept for a relative path and dropped for an absolute
  one; any other segment is kept.
\<close>

fun normalizeSegments :: "bool \<Rightarrow> string list \<Rightarrow> string list \<Rightarrow> string list" where
  "normalizeSegments allowAboveRoot res [] = res"
| "normalizeSegments allowAboveRoot res (seg # rest) =
     (if seg = [] \<or> seg = ''.'' then normalizeSegments allowAboveRoot res rest
      else if seg = ''..'' then
        (if res \<noteq> [] \<and> last res \<noteq> ''..''
         then normalizeSegments allowAboveRoot (butlast res) rest
         else if allowAboveRoot then normalizeSegments allowAboveRoot (res @ [''..'']) rest
         else normalizeSegments allowAboveRoot res rest)
      else normalizeSegments allowAboveRoot (res @ [seg]) rest)"

definition normalizeString :: "string \<Rightarrow> bool \<Rightarrow> string" where
  "normalizeString path allowAboveRoot =
     join_slash (normalizeSegments allowAboveRoot [] (split_slash path))"

definition isAbsolute :: "string \<Rightarrow> bool" where
  "isAbsolute path \<longleftrightarrow> path \<noteq> [] \<and> hd path = CHR ''/''"

text \<open>
  Modelled from the spec: \<open>path.normalize\<close> (``standard POSIX path normalization
  semantics''), not under \<open>src/\<close>. The empty path becomes \<open>.\<close>; a leading separator and
  a trailing separator are kept.
\<close>

definition normalize :: "string \<Rightarrow> string" where
  "normalize path =
     (if path = [] then ''.''
      else
        let isAbs = (hd path = CHR ''/'');
            trailingSeparator = (last path = CHR ''/'');
            p = normalizeString path (\<not> isAbs)
        in if p = [] then (if isAbs then ''/'' else if trailingSeparator then ''./'' else ''.'')
           else (if isAbs then ''/'' else []) @ p @ (if trailingSeparator then ''/'' else []))"

text \<open>
  Modelled from the spec: \<open>path.basename\<close> (``the final path segment''), not under
  \<open>src/\<close>: trailing separators are ignored, the result is what follows the last
  remaining separator.
\<close>

definition basename :: "string \<Rightarrow> string" where
  "basename path =
     rev (takeWhile (\<lambda>c. c \<noteq> CHR ''/'') (dropWhile (\<lambda>c. c = CHR ''/'') (rev path)))"

text \<open>
  Modelled from the spec: \<open>path.dirname\<close> (``the path with its final segment
  removed''), not under \<open>src/\<close>. The scan runs from the end of the path down to its
  second character: it skips trailing separators, then the final segment, and cuts at
  the separator before it.
\<close>

definition dirname :: "string \<Rightarrow> string" where
  "dirname path =
     (if path = [] then ''.''
      else
        let hasRoot = (hd path = CHR ''/'');
            r = dropWhile (\<lambda>c. c \<noteq> CHR ''/'') (dropWhile (\<lambda>c. c = CHR ''/'') (rev (tl path)))
        in if r = [] then (if hasRoot then ''/'' else ''.'')
           else if hasRoot \<and> length r = 1 then ''//''
           else take (length r) path)"

text \<open>
  Modelled from the spec: \<open>path.resolve\<close> with one argument and the test whether
  \<open>path.relative\<close> is the empty string, not under \<open>src/\<close>. A relative argument is
  resolved against the working directory \<open>pcwd\<close> of the host process, an absolute path.
  \<open>relative\<close> is empty exactly when its arguments are equal or resolve to the same path.
\<close>

definition resolve :: "string \<Rightarrow> string \<Rightarrow> string" where
  "resolve pcwd path =
     ''/'' @ normalizeString (if path = [] then pcwd
                              else if isAbsolute path then path @ ''/''
                              else pcwd @ ''/'' @ path @ ''/'') False"

definition relative_is_empty :: "string \<Rightarrow> string \<Rightarrow> string \<Rightarrow> bool" where
  "relative_is_empty pcwd from to \<longleftrightarrow> from = to \<or> resolve pcwd from = resolve pcwd to"

section \<open>The object store\<close>

text \<open>
  Directories and files are objects that refer to each other (a directory holds its
  children, every node holds its parent), and the program relies on that sharing: a
  node can be reached through a collection and through \<open>currentDir\<close> at once. Objects
  therefore live in a store and are named by their address. A JavaScript \<open>Map\<close> is an
  association list in insertion order: \<open>get\<close> is \<open>map_of\<close>, \<open>set\<close> is \<open>AList.update\<close>
  (an existing key keeps its place, a new key is appended), \<open>delete\<close> is
  \<open>AList.delete\<close>. Content is a byte string; the numbers are integers.
\<close>

type_synonym addr = nat

datatype NodeType = DIRECTORY | FILE

text \<open>The kinds of \<open>ErrorMsg\<close>, and the \<open>RangeError\<close> of an exhausted call stack.\<close>

datatype error =
    AmbiguousPath | CannotUpdateRoot | DirectoryNotFound | DirectoryExists | FileNotFound
  | FileExists | MissingPath | NotFound | OutOfMemory | RangeError

definition ROOT_PATH :: string where
  "ROOT_PATH = ''/''"

definition MOVE_UP_PATHS :: "string list" where
  "MOVE_UP_PATHS = [''..'', ''../'']"

definition CURRENT_DIR_PATHS :: "string list" where
  "CURRENT_DIR_PATHS = [''.'', ''./'']"

text \<open>Class \<open>Directory\<close>; \<open>parent\<close> is \<open>None\<close> for \<open>null\<close>.\<close>

record Directory =
  parent :: "addr option"
  name :: string
  filesByName :: "(string \<times> addr) list"
  directoriesByName :: "(string \<times> addr) list"

text \<open>Class \<open>File\<close>; its fields \<open>parent\<close> and \<open>name\<close> are \<open>fparent\<close> and \<open>fname\<close> here.\<close>

record File =
  fparent :: addr
  fname :: string
  content :: "string option"
  contentByteCount :: "nat option"

text \<open>
  Class \<open>VirtualFileSystem\<close> together with the store of all objects: \<open>dirs\<close> and \<open>files\<close>
  give the object at an address, \<open>nextDir\<close> and \<open>nextFile\<close> are the addresses that the
  next \<open>new Directory\<close> and \<open>new File\<close> take.
\<close>

record vfs =
  currentDir :: addr
  totalFileContentBytes :: int
  maxBytes :: int
  dirs :: "addr \<Rightarrow> Directory"
  files :: "addr \<Rightarrow> File"
  nextDir :: addr
  nextFile :: addr

definition upd_dir :: "vfs \<Rightarrow> addr \<Rightarrow> (Directory \<Rightarrow> Directory) \<Rightarrow> vfs" where
  "upd_dir s a f = s\<lparr>dirs := (dirs s)(a := f (dirs s a))\<rparr>"

definition upd_file :: "vfs \<Rightarrow> addr \<Rightarrow> (File \<Rightarrow> File) \<Rightarrow> vfs" where
  "upd_file s a f = s\<lparr>files := (files s)(a := f (files s a))\<rparr>"

text \<open>\<open>new Directory({parent, name})\<close> and \<open>new File({parent, name, content})\<close>.\<close>

definition new_Directory :: "vfs \<Rightarrow> addr option \<Rightarrow> string \<Rightarrow> addr \<times> vfs" where
  "new_Directory s par nm =
     (nextDir s,
      s\<lparr>dirs := (dirs s)(nextDir s :=
             \<lparr>parent = par, name = nm, filesByName = [], directoriesByName = []\<rparr>),
        nextDir := Suc (nextDir s)\<rparr>)"

definition new_File :: "vfs \<Rightarrow> addr \<Rightarrow> string \<Rightarrow> string option \<Rightarrow> addr \<times> vfs" where
  "new_File s par nm cont =
     (nextFile s,
      s\<lparr>files := (files s)(nextFile s :=
             (case cont of
                Some c \<Rightarrow> if c \<noteq> [] then \<lparr>fparent = par, fname = nm, content = Some c,
                                             contentByteCount = Some (length c)\<rparr>
                          else \<lparr>fparent = par, fname = nm, content = None, contentByteCount = None\<rparr>
              | None \<Rightarrow> \<lparr>fparent = par, fname = nm, content = None, contentByteCount = None\<rparr>)),
        nextFile := Suc (nextFile s)\<rparr>)"

text \<open>\<open>new VirtualFileSystem()\<close>: the root directory has address 0.\<close>

definition new_vfs :: vfs where
  "new_vfs =
     \<lparr>currentDir = 0, totalFileContentBytes = 0, maxBytes = 1073741824,
      dirs = (\<lambda>_. \<lparr>parent = None, name = [], filesByName = [], directoriesByName = []\<rparr>)
               (0 := \<lparr>parent = None, name = ROOT_PATH, filesByName = [], directoriesByName = []\<rparr>),
      files = (\<lambda>_. \<lparr>fparent = 0, fname = [], content = None, contentByteCount = None\<rparr>),
      nextDir = 1, nextFile = 0\<rparr>"

section \<open>FileSystemNode.ts\<close>

text \<open>
  \<open>getPath\<close> recurses along the parent links. \<open>None\<close> is the recursion that never
  reaches a directory without parent; JavaScript ends it with a \<open>RangeError\<close>.
\<close>

partial_function (option) getPath :: "vfs \<Rightarrow> addr \<Rightarrow> string option" where
  "getPath s this =
     (case parent (dirs s this) of
        None \<Rightarrow> Some (name (dirs s this))
      | Some p \<Rightarrow> Option.bind (getPath s p)
                   (\<lambda>pp. Some (normalize (pp @ ''/'' @ name (dirs s this)))))"

declare getPath.simps [code]

definition File_getPath :: "vfs \<Rightarrow> addr \<Rightarrow> string option" where
  "File_getPath s this =
     Option.bind (getPath s (fparent (files s this)))
       (\<lambda>pp. Some (normalize (pp @ ''/'' @ fname (files s this))))"

definition hasDirectory :: "vfs \<Rightarrow> addr \<Rightarrow> string \<Rightarrow> bool" where
  "hasDirectory s this nm \<longleftrightarrow> map_of (directoriesByName (dirs s this)) nm \<noteq> None"

definition hasFile :: "vfs \<Rightarrow> addr \<Rightarrow> string \<Rightarrow> bool" where
  "hasFile s this nm \<longleftrightarrow> map_of (filesByName (dirs s this)) nm \<noteq> None"

text \<open>
  \<open>addDirectory\<close>, \<open>addFile\<close> and \<open>removeDirectory\<close> of a directory throw before they
  change anything: \<open>Inl\<close> is the error, \<open>Inr\<close> the store after the call.
\<close>

definition addDirectory :: "vfs \<Rightarrow> addr \<Rightarrow> addr \<Rightarrow> error + vfs" where
  "addDirectory s this dir =
     (if hasFile s this (name (dirs s dir)) then Inl AmbiguousPath
      else
        let s1 = upd_dir s dir (\<lambda>d. d\<lparr>parent := Some this\<rparr>)
        in Inr (upd_dir s1 this (\<lambda>d. d\<lparr>directoriesByName :=
                  AList.update (name (dirs s1 dir)) dir (directoriesByName d)\<rparr>)))"

definition addFile :: "vfs \<Rightarrow> addr \<Rightarrow> addr \<Rightarrow> error + vfs" where
  "addFile s this file =
     (if hasDirectory s this (fname (files s file)) then Inl AmbiguousPath
      else
        let s1 = upd_file s file (\<lambda>f. f\<lparr>fparent := this\<rparr>)
        in Inr (upd_dir s1 this (\<lambda>d. d\<lparr>filesByName :=
                  AList.update (fname (files s1 file)) file (filesByName d)\<rparr>)))"

definition Directory_removeDirectory :: "vfs \<Rightarrow> addr \<Rightarrow> string \<Rightarrow> error + vfs" where
  "Directory_removeDirectory s this nm =
     (if nm = ROOT_PATH then Inl CannotUpdateRoot
      else Inr (upd_dir s this (\<lambda>d. d\<lparr>directoriesByName :=
                  AList.delete nm (directoriesByName d)\<rparr>)))"

definition Directory_removeFile :: "vfs \<Rightarrow> addr \<Rightarrow> string \<Rightarrow> vfs" where
  "Directory_removeFile s this nm =
     upd_dir s this (\<lambda>d. d\<lparr>filesByName := AList.delete nm (filesByName d)\<rparr>)"

text \<open>
  The methods below can throw after they have changed the store, so they return the
  outcome together with the store as the call leaves it.
\<close>

definition Directory_update ::
  "vfs \<Rightarrow> addr \<Rightarrow> string option \<Rightarrow> addr option \<Rightarrow> (error + unit) \<times> vfs" where
  "Directory_update s this nameArg parentArg =
     (case parent (dirs s this) of
        None \<Rightarrow> (Inl CannotUpdateRoot, s)
      | Some originalParent \<Rightarrow>
          let originalName = name (dirs s this);
              nm = (case nameArg of None \<Rightarrow> name (dirs s this) | Some n \<Rightarrow> n);
              par = (case parentArg of None \<Rightarrow> originalParent | Some p \<Rightarrow> p)
          in if map_of (filesByName (dirs s par)) nm \<noteq> None then (Inl AmbiguousPath, s)
             else
               let s1 = upd_dir s this (\<lambda>d. d\<lparr>name := nm, parent := Some par\<rparr>)
               in (case addDirectory s1 par this of
                     Inl e \<Rightarrow> (Inl e, s1)
                   | Inr s2 \<Rightarrow>
                       (case Directory_removeDirectory s2 originalParent originalName of
                          Inl e \<Rightarrow> (Inl e, s2)
                        | Inr s3 \<Rightarrow> (Inr (), s3))))"

definition createAndAddDirectory :: "vfs \<Rightarrow> addr \<Rightarrow> string \<Rightarrow> (error + unit) \<times> vfs" where
  "createAndAddDirectory s this nm =
     (if nm = ROOT_PATH then (Inl DirectoryExists, s)
      else
        let (d, s1) = new_Directory s (Some this) nm
        in (case addDirectory s1 this d of
              Inl e \<Rightarrow> (Inl e, s1)
            | Inr s2 \<Rightarrow> (Inr (), s2)))"

definition createAndAddFile ::
  "vfs \<Rightarrow> addr \<Rightarrow> string \<Rightarrow> string option \<Rightarrow> (error + unit) \<times> vfs" where
  "createAndAddFile s this nm cont =
     (let (f, s1) = new_File s this nm cont
      in (case addFile s1 this f of
            Inl e \<Rightarrow> (Inl e, s1)
          | Inr s2 \<Rightarrow> (Inr (), s2)))"

definition File_update ::
  "vfs \<Rightarrow> addr \<Rightarrow> string option \<Rightarrow> addr option \<Rightarrow> string option \<Rightarrow> (error + unit) \<times> vfs"
  where
  "File_update s this nameArg parentArg contentArg =
     (let originalName = fname (files s this);
          originalParent = fparent (files s this);
          nm = (case nameArg of None \<Rightarrow> fname (files s this) | Some n \<Rightarrow> n);
          par = (case parentArg of None \<Rightarrow> fparent (files s this) | Some p \<Rightarrow> p);
          cont = (case contentArg of None \<Rightarrow> content (files s this) | Some c \<Rightarrow> Some c);
          s1 = upd_file s this (\<lambda>f. f\<lparr>fname := nm, content := cont\<rparr>)
      in (case addFile s1 par this of
            Inl e \<Rightarrow> (Inl e, s1)
          | Inr s2 \<Rightarrow> (Inr (), Directory_removeFile s2 originalParent originalName)))"

definition setContent :: "vfs \<Rightarrow> addr \<Rightarrow> string \<Rightarrow> vfs" where
  "setContent s this c =
     upd_file s this (\<lambda>f. f\<lparr>contentByteCount := Some (length c), content := Some c\<rparr>)"

text \<open>
  \<open>getTotalByteCount\<close> recurses into every child directory; \<open>those_map\<close> is its loop
  over the children. \<open>None\<close> is again the recursion without end.
\<close>

fun those_map :: "('a \<Rightarrow> 'b option) \<Rightarrow> 'a list \<Rightarrow> 'b list option" where
  "those_map f [] = Some []"
| "those_map f (x # xs) =
     Option.bind (f x) (\<lambda>y. Option.bind (those_map f xs) (\<lambda>ys. Some (y # ys)))"

lemma those_map_mono [partial_function_mono]:
  assumes "\<And>x. mono_option (\<lambda>f. B f x)"
  shows "mono_option (\<lambda>f. those_map (B f) xs)"
proof (induction xs)
  case Nil
  show ?case by (simp add: option.const_mono)
next
  case (Cons x xs)
  show ?case
    unfolding those_map.simps
    by (intro bind_mono assms Cons.IH option.const_mono)
qed

partial_function (option) getTotalByteCount :: "vfs \<Rightarrow> addr \<Rightarrow> nat option" where
  "getTotalByteCount s this =
     Option.bind
       (those_map (\<lambda>directory. getTotalByteCount s directory)
          (map snd (directoriesByName (dirs s this))))
       (\<lambda>subs. Some (sum_list (map (\<lambda>file. case contentByteCount (files s file) of
                                               None \<Rightarrow> 0 | Some n \<Rightarrow> n)
                                  (map snd (filesByName (dirs s this))))
                      + sum_list subs))"

declare getTotalByteCount.simps [code]

section \<open>index.ts: the path resolver\<close>

text \<open>
  \<open>_getRoot\<close> is a \<open>while\<close> loop along the parent links, from the current directory.
  \<open>None\<close> is the loop that never ends.
\<close>

partial_function (option) getRoot_loop :: "vfs \<Rightarrow> addr \<Rightarrow> addr option" where
  "getRoot_loop s dir =
     (case parent (dirs s dir) of
        None \<Rightarrow> Some dir
      | Some p \<Rightarrow> getRoot_loop s p)"

declare getRoot_loop.simps [code]

definition getRoot :: "vfs \<Rightarrow> addr option" where
  "getRoot s = getRoot_loop s (currentDir s)"

text \<open>
  The \<open>for\<close> loop of \<open>_getTarget\<close> over the names of the directory part; \<open>None\<close> is its
  \<open>return\<close> of \<open>undefined\<close> at a name that is not there.
\<close>

fun walk :: "vfs \<Rightarrow> addr \<Rightarrow> string list \<Rightarrow> addr option" where
  "walk s currDir [] = Some currDir"
| "walk s currDir (nextPath # rest) =
     (if nextPath \<in> set MOVE_UP_PATHS then
        walk s (case parent (dirs s currDir) of Some p \<Rightarrow> p | None \<Rightarrow> currDir) rest
      else if nextPath \<in> set CURRENT_DIR_PATHS then walk s currDir rest
      else (case map_of (directoriesByName (dirs s currDir)) nextPath of
              None \<Rightarrow> None
            | Some d \<Rightarrow> walk s d rest))"

text \<open>
  \<open>_getTarget\<close> returns a directory, a file or \<open>undefined\<close>: the inner option. The outer
  option is \<open>None\<close> when the call does not return, because \<open>_getRoot\<close> does not.
\<close>

datatype node = DirectoryNode addr | FileNode addr

definition getTarget :: "vfs \<Rightarrow> string \<Rightarrow> NodeType \<Rightarrow> node option option" where
  "getTarget s path0 type =
     (let path = normalize path0
      in if type = DIRECTORY \<and> path \<in> set CURRENT_DIR_PATHS
         then Some (Some (DirectoryNode (currentDir s)))
         else if type = DIRECTORY \<and> path = ROOT_PATH
         then map_option (\<lambda>r. Some (DirectoryNode r)) (getRoot s)
         else if type = DIRECTORY \<and> path \<in> set MOVE_UP_PATHS
         then Some (Some (DirectoryNode (case parent (dirs s (currentDir s)) of
                                           Some p \<Rightarrow> p | None \<Rightarrow> currentDir s)))
         else
           let pathArray = filter (\<lambda>w. w \<noteq> []) (split_slash (dirname path))
           in (case (if isAbsolute path then getRoot s else Some (currentDir s)) of
                 None \<Rightarrow> None
               | Some start \<Rightarrow>
                   (case walk s start pathArray of
                      None \<Rightarrow> Some None
                    | Some currDir \<Rightarrow>
                        let targetName = basename path
                        in Some (case type of
                             DIRECTORY \<Rightarrow> map_option DirectoryNode
                               (map_of (directoriesByName (dirs s currDir)) targetName)
                           | FILE \<Rightarrow> map_option FileNode
                               (map_of (filesByName (dirs s currDir)) targetName)))))"

definition getTargetDirectory :: "vfs \<Rightarrow> string \<Rightarrow> addr option option" where
  "getTargetDirectory s path =
     map_option (\<lambda>r. case r of Some (DirectoryNode d) \<Rightarrow> Some d | _ \<Rightarrow> None)
       (getTarget s path DIRECTORY)"

definition getTargetFile :: "vfs \<Rightarrow> string \<Rightarrow> addr option option" where
  "getTargetFile s path =
     map_option (\<lambda>r. case r of Some (FileNode f) \<Rightarrow> Some f | _ \<Rightarrow> None)
       (getTarget s path FILE)"

section \<open>index.ts: the operations\<close>

text \<open>
  A query returns \<open>None\<close> when it gives neither a value nor one of the errors it throws
  itself (it runs forever or exhausts the call stack), otherwise \<open>Some\<close> of the error or
  of the value.
\<close>

definition getCurrentDir :: "vfs \<Rightarrow> string option" where
  "getCurrentDir s = getPath s (currentDir s)"


definition getAvailableSpace :: "vfs \<Rightarrow> int" where
  "getAvailableSpace s = maxBytes s - totalFileContentBytes s"

definition readFile :: "vfs \<Rightarrow> string \<Rightarrow> (error + string option) option" where
  "readFile s path =
     (case getTargetFile s path of
        None \<Rightarrow> None
      | Some None \<Rightarrow> Some (Inl FileNotFound)
      | Some (Some file) \<Rightarrow> Some (Inr (content (files s file))))"

text \<open>
  An operation that changes the file system returns \<open>None\<close> when the call never returns
  (\<open>_getRoot\<close> loops), otherwise the outcome (\<open>Inl\<close> the error thrown, \<open>Inr ()\<close> a normal
  return) and the state that the call leaves, also when it throws.
\<close>

type_synonym outcome = "((error + unit) \<times> vfs) option"

definition changeDirectory :: "vfs \<Rightarrow> string option \<Rightarrow> outcome" where
  "changeDirectory s pathArg =
     (let path = (case pathArg of None \<Rightarrow> ROOT_PATH | Some p \<Rightarrow> p)
      in (case getTargetDirectory s path of
            None \<Rightarrow> None
          | Some None \<Rightarrow> Some (Inl DirectoryNotFound, s)
          | Some (Some targetDir) \<Rightarrow> Some (Inr (), s\<lparr>currentDir := targetDir\<rparr>)))"

definition makeDirectory :: "vfs \<Rightarrow> string \<Rightarrow> outcome" where
  "makeDirectory s path0 =
     (if length path0 = 0 then Some (Inl MissingPath, s)
      else
        let path = normalize path0;
            nm = basename path
        in (case getTargetDirectory s (dirname path) of
              None \<Rightarrow> None
            | Some None \<Rightarrow> Some (Inl DirectoryNotFound, s)
            | Some (Some targetDir) \<Rightarrow> Some (createAndAddDirectory s targetDir nm)))"

definition makeFile :: "vfs \<Rightarrow> string \<Rightarrow> outcome" where
  "makeFile s path0 =
     (let path = normalize path0;
          nm = basename path
      in (case getTargetDirectory s (dirname path) of
            None \<Rightarrow> None
          | Some None \<Rightarrow> Some (Inl DirectoryNotFound, s)
          | Some (Some targetDir) \<Rightarrow> Some (createAndAddFile s targetDir nm None)))"

definition removeDirectory :: "vfs \<Rightarrow> string \<Rightarrow> outcome" where
  "removeDirectory s path =
     (case getTargetDirectory s path of
        None \<Rightarrow> None
      | Some None \<Rightarrow> Some (Inl DirectoryNotFound, s)
      | Some (Some dir) \<Rightarrow>
          (case parent (dirs s dir) of
             None \<Rightarrow> Some (Inl CannotUpdateRoot, s)
           | Some p \<Rightarrow>
               (case getTotalByteCount s dir of
                  None \<Rightarrow> Some (Inl RangeError, s)
                | Some n \<Rightarrow>
                    let s1 = s\<lparr>totalFileContentBytes := totalFileContentBytes s - int n\<rparr>
                    in (case Directory_removeDirectory s1 p (name (dirs s1 dir)) of
                          Inl e \<Rightarrow> Some (Inl e, s1)
                        | Inr s2 \<Rightarrow> Some (Inr (), s2)))))"

definition removeFile :: "vfs \<Rightarrow> string \<Rightarrow> outcome" where
  "removeFile s path =
     (case getTargetFile s path of
        None \<Rightarrow> None
      | Some None \<Rightarrow> Some (Inl FileNotFound, s)
      | Some (Some file) \<Rightarrow>
          let s1 = (case content (files s file) of
                      None \<Rightarrow> s
                    | Some c \<Rightarrow> if c \<noteq> []
                        then s\<lparr>totalFileContentBytes := totalFileContentBytes s - int (length c)\<rparr>
                        else s)
          in Some (Inr (), Directory_removeFile s1 (fparent (files s1 file))
                             (fname (files s1 file))))"

definition writeFile :: "vfs \<Rightarrow> string \<Rightarrow> string \<Rightarrow> outcome" where
  "writeFile s path cont =
     (case getTargetFile s path of
        None \<Rightarrow> None
      | Some None \<Rightarrow> Some (Inl FileNotFound, s)
      | Some (Some file) \<Rightarrow>
          let bytes = int (length cont)
          in if totalFileContentBytes s + bytes > maxBytes s then Some (Inl OutOfMemory, s)
             else
               let s1 = setContent s file cont
               in Some (Inr (), s1\<lparr>totalFileContentBytes := totalFileContentBytes s1 + bytes\<rparr>))"

definition moveFile :: "vfs \<Rightarrow> string \<Rightarrow> string \<Rightarrow> outcome" where
  "moveFile s path targetDirPath =
     (case getTargetFile s path of
        None \<Rightarrow> None
      | Some fileRes \<Rightarrow>
          (case getTargetDirectory s targetDirPath of
             None \<Rightarrow> None
           | Some targetRes \<Rightarrow>
               (case fileRes of
                  None \<Rightarrow> Some (Inl FileNotFound, s)
                | Some file \<Rightarrow>
                    (case targetRes of
                       None \<Rightarrow> Some (Inl DirectoryNotFound, s)
                     | Some targetDir \<Rightarrow>
                         let originalParent = fparent (files s file)
                         in (case addFile s targetDir file of
                               Inl e \<Rightarrow> Some (Inl e, s)
                             | Inr s1 \<Rightarrow>
                                 Some (Inr (), Directory_removeFile s1 originalParent
                                                 (fname (files s1 file))))))))"

definition renameFile :: "vfs \<Rightarrow> string \<Rightarrow> string \<Rightarrow> outcome" where
  "renameFile s path nm =
     (case getTargetFile s path of
        None \<Rightarrow> None
      | Some fileRes \<Rightarrow>
          let originalName = basename path
          in (case fileRes of
                None \<Rightarrow> Some (Inl FileNotFound, s)
              | Some file \<Rightarrow>
                  (case File_update s file (Some nm) None None of
                     (Inl e, s1) \<Rightarrow> Some (Inl e, s1)
                   | (Inr _, s1) \<Rightarrow>
                       Some (Inr (), Directory_removeFile s1 (fparent (files s1 file))
                                       originalName))))"

definition renameDirectory :: "vfs \<Rightarrow> string \<Rightarrow> string \<Rightarrow> outcome" where
  "renameDirectory s path nm =
     (if normalize path = ROOT_PATH then Some (Inl CannotUpdateRoot, s)
      else
        (case getTargetDirectory s path of
           None \<Rightarrow> None
         | Some dirRes \<Rightarrow>
             let originalName = basename path
             in (case dirRes of
                   None \<Rightarrow> Some (Inl DirectoryNotFound, s)
                 | Some directory \<Rightarrow>
                     (case Directory_update s directory (Some nm) None of
                        (Inl e, s1) \<Rightarrow> Some (Inl e, s1)
                      | (Inr _, s1) \<Rightarrow>
                          (case parent (dirs s1 directory) of
                             None \<Rightarrow> Some (Inr (), s1)
                           | Some p \<Rightarrow>
                               (case Directory_removeDirectory s1 p originalName of
                                  Inl e \<Rightarrow> Some (Inl e, s1)
                                | Inr s2 \<Rightarrow> Some (Inr (), s2)))))))"

text \<open>
  \<open>moveDirectory\<close> ends with \<open>pathUtils.relative(this.currentDir.getPath(), path)\<close>, which
  for a relative \<open>path\<close> depends on the working directory \<open>pcwd\<close> of the host process.
  When \<open>getPath\<close> exhausts the stack there, the call throws with the move done.
\<close>

definition moveDirectory :: "string \<Rightarrow> vfs \<Rightarrow> string \<Rightarrow> string \<Rightarrow> outcome" where
  "moveDirectory pcwd s path targetDirPath =
     (if normalize path = ROOT_PATH then Some (Inl CannotUpdateRoot, s)
      else
        (case getTargetDirectory s path of
           None \<Rightarrow> None
         | Some dirRes \<Rightarrow>
             (case getTargetDirectory s targetDirPath of
                None \<Rightarrow> None
              | Some targetRes \<Rightarrow>
                  (case dirRes of
                     None \<Rightarrow> Some (Inl DirectoryNotFound, s)
                   | Some directory \<Rightarrow>
                       (case targetRes of
                          None \<Rightarrow> Some (Inl DirectoryNotFound, s)
                        | Some targetDir \<Rightarrow>
                            let originalParent = parent (dirs s directory)
                            in (case addDirectory s targetDir directory of
                                  Inl e \<Rightarrow> Some (Inl e, s)
                                | Inr s1 \<Rightarrow>
                                    (case (case originalParent of
                                             None \<Rightarrow> Inr s1
                                           | Some op \<Rightarrow> Directory_removeDirectory s1 op
                                                         (name (dirs s1 directory))) of
                                       Inl e \<Rightarrow> Some (Inl e, s1)
                                     | Inr s2 \<Rightarrow>
                                         (case getPath s2 (currentDir s2) of
                                            None \<Rightarrow> Some (Inl RangeError, s2)
                                          | Some cp \<Rightarrow>
                                              if relative_is_empty pcwd cp path
                                              then Some (Inr (), s2\<lparr>currentDir := directory\<rparr>)
                                              else Some (Inr (), s2)))))))))"

text \<open>
  \<open>find\<close> calls itself on the path of every child directory, resolving that path again.
  \<open>collect_each\<close> is its \<open>forEach\<close>: it stops at the first child whose search throws.
\<close>

fun collect_each ::
  "('a \<Rightarrow> (error + string list) option) \<Rightarrow> 'a list \<Rightarrow> (error + string list) option" where
  "collect_each f [] = Some (Inr [])"
| "collect_each f (x # xs) =
     Option.bind (f x) (\<lambda>r. case r of
        Inl e \<Rightarrow> Some (Inl e)
      | Inr ys \<Rightarrow> Option.bind (collect_each f xs) (\<lambda>r'. case r' of
          Inl e \<Rightarrow> Some (Inl e)
        | Inr zs \<Rightarrow> Some (Inr (ys @ zs))))"

lemma collect_each_mono [partial_function_mono]:
  assumes "\<And>x. mono_option (\<lambda>f. B f x)"
  shows "mono_option (\<lambda>f. collect_each (B f) xs)"
proof (induction xs)
  case Nil
  show ?case by (simp add: option.const_mono)
next
  case (Cons x xs)
  have inner: "mono_option (\<lambda>f. Option.bind (collect_each (B f) xs) (\<lambda>r'. case r' of
          Inl e \<Rightarrow> Some (Inl e) | Inr zs \<Rightarrow> Some (Inr (ys @ zs))))" for ys
    by (intro bind_mono Cons.IH option.const_mono)
  show ?case
    unfolding collect_each.simps
  proof (rule bind_mono [OF assms])
    fix r :: "error + string list"
    show "mono_option (\<lambda>f. case r of
            Inl e \<Rightarrow> Some (Inl e)
          | Inr ys \<Rightarrow> Option.bind (collect_each (B f) xs) (\<lambda>r'. case r' of
              Inl e \<Rightarrow> Some (Inl e)
            | Inr zs \<Rightarrow> Some (Inr (ys @ zs))))"
      by (cases r) (simp_all add: option.const_mono inner)
  qed
qed




section \<open>Sequences of operations\<close>

datatype call =
    ChangeDirectory "string option"
  | MakeDirectory string
  | MakeFile string
  | RemoveDirectory string
  | RemoveFile string
  | WriteFile string string
  | MoveFile string string
  | RenameFile string string
  | RenameDirectory string string
  | MoveDirectory string string

fun exec :: "string \<Rightarrow> vfs \<Rightarrow> call \<Rightarrow> outcome" where
  "exec pcwd s (ChangeDirectory p) = changeDirectory s p"
| "exec pcwd s (MakeDirectory p) = makeDirectory s p"
| "exec pcwd s (MakeFile p) = makeFile s p"
| "exec pcwd s (RemoveDirectory p) = removeDirectory s p"
| "exec pcwd s (RemoveFile p) = removeFile s p"
| "exec pcwd s (WriteFile p c) = writeFile s p c"
| "exec pcwd s (MoveFile p t) = moveFile s p t"
| "exec pcwd s (RenameFile p n) = renameFile s p n"
| "exec pcwd s (RenameDirectory p n) = renameDirectory s p n"
| "exec pcwd s (MoveDirectory p t) = moveDirectory pcwd s p t"

text \<open>
  The states that a program can see: the fresh file system, with any capacity (the
  field \<open>maxBytes\<close> is public), and the state that any returning call leaves, whether
  it returns normally or throws. The queries (\<open>getCurrentDir\<close>, \<open>getDirectoryContents\<close>,
  \<open>getAvailableSpace\<close>, \<open>readFile\<close>, \<open>find\<close>) assign nothing, so they are no calls here.
\<close>

inductive reachable :: "string \<Rightarrow> vfs \<Rightarrow> bool" for pcwd :: string where
  fresh: "reachable pcwd (new_vfs\<lparr>maxBytes := m\<rparr>)"
| call: "reachable pcwd s \<Longrightarrow> exec pcwd s c = Some (r, s') \<Longrightarrow> reachable pcwd s'"

text \<open>
  Running a list of calls: the outcomes of the calls and the state after the last one;
  \<open>None\<close> when one of them does not return.
\<close>

fun run :: "string \<Rightarrow> vfs \<Rightarrow> call list \<Rightarrow> ((error + unit) list \<times> vfs) option" where
  "run pcwd s [] = Some ([], s)"
| "run pcwd s (c # cs) =
     (case exec pcwd s c of
        None \<Rightarrow> None
      | Some (r, s') \<Rightarrow>
          (case run pcwd s' cs of
             None \<Rightarrow> None
           | Some (rs, s'') \<Rightarrow> Some (r # rs, s'')))"

definition outcomes :: "string \<Rightarrow> vfs \<Rightarrow> call list \<Rightarrow> (error + unit) list option" where
  "outcomes pcwd s cs = map_option fst (run pcwd s cs)"

definition final :: "string \<Rightarrow> vfs \<Rightarrow> call list \<Rightarrow> vfs" where
  "final pcwd s cs = (case run pcwd s cs of Some (rs, s') \<Rightarrow> s' | None \<Rightarrow> s)"

section \<open>Basic facts\<close>

lemma upd_dir_simps [simp]:
  "currentDir (upd_dir s a f) = currentDir s"
  "totalFileContentBytes (upd_dir s a f) = totalFileContentBytes s"
  "maxBytes (upd_dir s a f) = maxBytes s"
  "files (upd_dir s a f) = files s"
  "dirs (upd_dir s a f) = (dirs s)(a := f (dirs s a))"
  "nextDir (upd_dir s a f) = nextDir s"
  "nextFile (upd_dir s a f) = nextFile s"
  by (simp_all add: upd_dir_def)

lemma upd_file_simps [simp]:
  "currentDir (upd_file s a f) = currentDir s"
  "totalFileContentBytes (upd_file s a f) = totalFileContentBytes s"
  "maxBytes (upd_file s a f) = maxBytes s"
  "dirs (upd_file s a f) = dirs s"
  "files (upd_file s a f) = (files s)(a := f (files s a))"
  "nextDir (upd_file s a f) = nextDir s"
  "nextFile (upd_file s a f) = nextFile s"
  by (simp_all add: upd_file_def)

lemma outcome_eqI:
  assumes "map_option fst x = Some r"
  shows "x = Some (r, snd (the x))"
  using assms by (cases x) auto

subsection \<open>What the primitives leave alone\<close>

lemma addFile_frame:
  "addFile s t f = Inr s1 \<Longrightarrow>
     totalFileContentBytes s1 = totalFileContentBytes s \<and> maxBytes s1 = maxBytes s \<and> currentDir s1 = currentDir s"
  by (auto simp: addFile_def Let_def split: if_splits)

lemma addDirectory_frame:
  "addDirectory s t d = Inr s1 \<Longrightarrow>
     totalFileContentBytes s1 = totalFileContentBytes s \<and> maxBytes s1 = maxBytes s \<and> currentDir s1 = currentDir s"
  by (auto simp: addDirectory_def Let_def split: if_splits)

lemma Directory_removeDirectory_frame:
  "Directory_removeDirectory s t n = Inr s1 \<Longrightarrow>
     totalFileContentBytes s1 = totalFileContentBytes s \<and> maxBytes s1 = maxBytes s \<and> currentDir s1 = currentDir s"
  by (auto simp: Directory_removeDirectory_def split: if_splits)

lemma Directory_removeFile_frame [simp]:
  "totalFileContentBytes (Directory_removeFile s t n) = totalFileContentBytes s"
  "maxBytes (Directory_removeFile s t n) = maxBytes s"
  "currentDir (Directory_removeFile s t n) = currentDir s"
  by (simp_all add: Directory_removeFile_def)

lemma File_update_total:
  "File_update s f n p c = (r, s1) \<Longrightarrow> totalFileContentBytes s1 = totalFileContentBytes s"
  by (auto simp: File_update_def Let_def split: sum.splits dest: addFile_frame)

lemma Directory_update_total:
  "Directory_update s d n p = (r, s1) \<Longrightarrow> totalFileContentBytes s1 = totalFileContentBytes s"
  by (auto simp: Directory_update_def Let_def split: option.splits if_splits sum.splits
      dest!: addDirectory_frame Directory_removeDirectory_frame)

lemma moveFile_total:
  "moveFile s p t = Some (r, s') \<Longrightarrow> totalFileContentBytes s' = totalFileContentBytes s"
  by (auto simp: moveFile_def Let_def split: option.splits sum.splits dest: addFile_frame)

lemma renameFile_total:
  "renameFile s p n = Some (r, s') \<Longrightarrow> totalFileContentBytes s' = totalFileContentBytes s"
  by (auto simp: renameFile_def Let_def split: option.splits sum.splits prod.splits dest: File_update_total)

lemma renameDirectory_total:
  "renameDirectory s p n = Some (r, s') \<Longrightarrow> totalFileContentBytes s' = totalFileContentBytes s"
  by (auto simp: renameDirectory_def Let_def split: option.splits sum.splits prod.splits if_splits
       dest!: Directory_update_total Directory_removeDirectory_frame)

lemma moveDirectory_total:
  "moveDirectory pcwd s p t = Some (r, s') \<Longrightarrow> totalFileContentBytes s' = totalFileContentBytes s"
  by (auto simp: moveDirectory_def Let_def split: option.splits sum.splits prod.splits if_splits
       dest!: addDirectory_frame Directory_removeDirectory_frame)

section \<open>Writing a file\<close>



definition replace_calls :: "call list" where
  "replace_calls =
     [MakeFile ''f'', WriteFile ''f'' ''abc'', MakeDirectory ''d'', MakeFile ''d/f'',
      WriteFile ''d/f'' ''hello'', MoveFile ''f'' ''d'']"





section \<open>Moving and renaming\<close>

text \<open>
  C10. \<open>moveFile\<close>, \<open>moveDirectory\<close>, \<open>renameFile\<close> and \<open>renameDirectory\<close> never change
  \<open>totalFileContentBytes\<close>, whatever their outcome. In particular, when a move replaces a
  file of the same name at the destination, the bytes of the replaced file stay counted:
  moving \<open>/f\<close> (3 bytes) over \<open>/d/f\<close> (5 bytes) leaves the counter at 8 while the files
  of the tree hold 3 bytes.
\<close>

theorem moves_keep_total:
  "(\<forall>s p t r s'. moveFile s p t = Some (r, s') \<longrightarrow> totalFileContentBytes s' = totalFileContentBytes s)
   \<and> (\<forall>pcwd s p t r s'. moveDirectory pcwd s p t = Some (r, s') \<longrightarrow>
          totalFileContentBytes s' = totalFileContentBytes s)
   \<and> (\<forall>s p n r s'. renameFile s p n = Some (r, s') \<longrightarrow> totalFileContentBytes s' = totalFileContentBytes s)
   \<and> (\<forall>s p n r s'. renameDirectory s p n = Some (r, s') \<longrightarrow>
          totalFileContentBytes s' = totalFileContentBytes s)
   \<and> outcomes ''/'' new_vfs replace_calls = Some [Inr (), Inr (), Inr (), Inr (), Inr (), Inr ()]
   \<and> totalFileContentBytes (final ''/'' new_vfs replace_calls) = 8
   \<and> getTotalByteCount (final ''/'' new_vfs replace_calls) 0 = Some 3
   \<and> readFile (final ''/'' new_vfs replace_calls) ''d/f'' = Some (Inr (Some ''abc''))"
proof (intro conjI allI impI)
  show "outcomes ''/'' new_vfs replace_calls = Some [Inr (), Inr (), Inr (), Inr (), Inr (), Inr ()]"
    by code_simp
  show "totalFileContentBytes (final ''/'' new_vfs replace_calls) = 8"
    by code_simp
  show "getTotalByteCount (final ''/'' new_vfs replace_calls) 0 = Some 3"
    by code_simp
  show "readFile (final ''/'' new_vfs replace_calls) ''d/f'' = Some (Inr (Some ''abc''))"
    by code_simp
qed (blast dest: moveFile_total moveDirectory_total renameFile_total renameDirectory_total)+

text \<open>The first part at the replacing move of the example.\<close>

theorem moves_keep_total_witness:
  "moveFile (final ''/'' new_vfs (butlast replace_calls)) ''f'' ''d''
     = Some (Inr (), snd (the (moveFile (final ''/'' new_vfs (butlast replace_calls)) ''f'' ''d'')))
   \<and> totalFileContentBytes (final ''/'' new_vfs (butlast replace_calls)) = 8
   \<and> totalFileContentBytes
        (snd (the (moveFile (final ''/'' new_vfs (butlast replace_calls)) ''f'' ''d''))) = 8"
proof -
  have "map_option fst (moveFile (final ''/'' new_vfs (butlast replace_calls)) ''f'' ''d'') = Some (Inr ())"
    by code_simp
  then have h: "moveFile (final ''/'' new_vfs (butlast replace_calls)) ''f'' ''d''
     = Some (Inr (), snd (the (moveFile (final ''/'' new_vfs (butlast replace_calls)) ''f'' ''d'')))"
    by (rule outcome_eqI)
  have t: "totalFileContentBytes (final ''/'' new_vfs (butlast replace_calls)) = 8"
    by code_simp
  from moves_keep_total h t show ?thesis
    by metis
qed

section \<open>Searching by name\<close>

definition find_calls :: "call list" where
  "find_calls = [MakeDirectory ''/foo'', MakeDirectory ''/foo/bar'', MakeFile ''/foo/bar/foo'']"



section \<open>Calls that throw\<close>

definition rename_clash_calls :: "call list" where
  "rename_clash_calls = [MakeFile ''x'', MakeDirectory ''d'']"

text \<open>
  C1 says that a call that throws leaves the state as it was, in particular that
  \<open>renameFile\<close> failing with \<open>AmbiguousPath\<close> leaves the name of the file unchanged. The
  program does otherwise: \<open>File.update\<close> assigns the new name before \<open>addFile\<close> checks
  it. With a file \<open>x\<close> and a directory \<open>d\<close> in the root, \<open>renameFile('x', 'd')\<close> throws
  \<open>AmbiguousPath\<close>, and afterwards the file is named \<open>d\<close> while the root still lists it
  under \<open>x\<close>.
\<close>

theorem renameFile_throws_after_renaming:
  "outcomes ''/'' new_vfs (rename_clash_calls @ [RenameFile ''x'' ''d''])
     = Some [Inr (), Inr (), Inl AmbiguousPath]
   \<and> fname (files (final ''/'' new_vfs rename_clash_calls) 0) = ''x''
   \<and> fname (files (final ''/'' new_vfs (rename_clash_calls @ [RenameFile ''x'' ''d''])) 0) = ''d''
   \<and> filesByName (dirs (final ''/'' new_vfs (rename_clash_calls @ [RenameFile ''x'' ''d''])) 0)
       = [(''x'', 0)]"
  by (intro conjI; code_simp)

text \<open>
  C3 says that \<open>makeDirectory\<close> and \<open>makeFile\<close> both throw \<open>MissingPath\<close> for the empty
  path. \<open>makeDirectory\<close> does, in every state and without changing it. \<open>makeFile\<close> has
  no such check: on the fresh file system \<open>makeFile('')\<close> returns normally and has
  created a file named \<open>.\<close> in the root.
\<close>

theorem makeFile_empty_path:
  "(\<forall>s. makeDirectory s [] = Some (Inl MissingPath, s))
   \<and> outcomes ''/'' new_vfs [MakeFile []] = Some [Inr ()]
   \<and> filesByName (dirs (final ''/'' new_vfs [MakeFile []]) 0) = [(''.'', 0)]
   \<and> nextFile new_vfs = 0 \<and> nextFile (final ''/'' new_vfs [MakeFile []]) = 1"
proof (intro conjI allI)
  fix s show "makeDirectory s [] = Some (Inl MissingPath, s)"
    by (simp add: makeDirectory_def)
qed code_simp+

section \<open>Protection of the root\<close>

definition cyclic_calls :: "call list" where
  "cyclic_calls =
     [MakeDirectory ''a'', ChangeDirectory (Some ''a''), RemoveDirectory ''/a'',
      MakeDirectory ''/a'', MoveDirectory ''/a'' ''/a'']"

subsection \<open>The root loop\<close>

lemma getRoot_loop_parentless:
  assumes "getRoot_loop s d = Some r"
  shows "parent (dirs s r) = None"
  using assms
proof (induction rule: getRoot_loop.raw_induct [rotated 1, consumes 1])
  case (1 loop s d r)
  then show ?case
    by (auto split: option.splits)
qed

lemma getRoot_loop_self:
  assumes "parent (dirs s d) = Some d"
  shows "getRoot_loop s d = None"
proof -
  have "getRoot_loop s' d' = Some r \<Longrightarrow> \<not> (s' = s \<and> d' = d)" for s' d' r
  proof (induction rule: getRoot_loop.raw_induct [rotated 1, consumes 1])
    case (1 loop s' d' r)
    then show ?case
      using assms by (auto split: option.splits)
  qed
  then show ?thesis
    by (cases "getRoot_loop s d") auto
qed

lemma normalize_root [simp]: "normalize ''/'' = ''/''"
  by code_simp

lemma getTargetDirectory_root:
  "getTargetDirectory s ''/'' = map_option Some (getRoot s)"
  by (simp add: getTargetDirectory_def getTarget_def CURRENT_DIR_PATHS_def ROOT_PATH_def
      option.map_comp comp_def)

subsection \<open>Reachable states\<close>

lemma reachable_run:
  "reachable pcwd s \<Longrightarrow> run pcwd s cs = Some (rs, s') \<Longrightarrow> reachable pcwd s'"
proof (induction cs arbitrary: s rs)
  case Nil
  then show ?case by simp
next
  case (Cons c cs)
  then show ?case
    by (auto split: option.splits prod.splits intro: reachable.call)
qed

lemma reachable_final:
  "reachable pcwd s \<Longrightarrow> reachable pcwd (final pcwd s cs)"
  by (auto simp: final_def split: option.splits dest: reachable_run)

lemma reachable_new_vfs: "reachable pcwd new_vfs"
proof -
  have "new_vfs\<lparr>maxBytes := 1073741824\<rparr> = new_vfs"
    by (simp add: new_vfs_def)
  then show ?thesis
    using reachable.fresh [of pcwd 1073741824] by simp
qed

text \<open>
  C8, as amended. \<open>renameDirectory('/', x)\<close> and \<open>moveDirectory('/', x)\<close> throw
  \<open>CannotUpdateRoot\<close> in every state, for every \<open>x\<close>, and leave the state as it was.
  \<open>removeDirectory('/')\<close> does the same in every state in which the parent links from
  the current directory lead to a directory without parent; in any other state it does
  not return, because \<open>_getRoot\<close> loops.
\<close>

theorem root_protection:
  "renameDirectory s ''/'' x = Some (Inl CannotUpdateRoot, s)
   \<and> moveDirectory pcwd s ''/'' x = Some (Inl CannotUpdateRoot, s)
   \<and> removeDirectory s ''/'' =
       (case getRoot s of None \<Rightarrow> None | Some r \<Rightarrow> Some (Inl CannotUpdateRoot, s))"
proof (intro conjI)
  show "renameDirectory s ''/'' x = Some (Inl CannotUpdateRoot, s)"
    by (simp add: renameDirectory_def ROOT_PATH_def)
  show "moveDirectory pcwd s ''/'' x = Some (Inl CannotUpdateRoot, s)"
    by (simp add: moveDirectory_def ROOT_PATH_def)
  show "removeDirectory s ''/'' =
       (case getRoot s of None \<Rightarrow> None | Some r \<Rightarrow> Some (Inl CannotUpdateRoot, s))"
  proof (cases "getRoot s")
    case None
    then show ?thesis
      by (simp add: removeDirectory_def getTargetDirectory_root)
  next
    case (Some r)
    then have "parent (dirs s r) = None"
      unfolding getRoot_def by (rule getRoot_loop_parentless)
    with Some show ?thesis
      by (simp add: removeDirectory_def getTargetDirectory_root)
  qed
qed

text \<open>
  C8 as stated fails: five calls that all return normally lead to a state in which
  the current directory is its own parent (a directory moved into itself, taken as the
  new current directory), and there \<open>removeDirectory('/')\<close> does not return.
\<close>

theorem removeDirectory_root_no_return:
  "outcomes ''/'' new_vfs cyclic_calls = Some [Inr (), Inr (), Inr (), Inr (), Inr ()]
   \<and> reachable ''/'' (final ''/'' new_vfs cyclic_calls)
   \<and> removeDirectory (final ''/'' new_vfs cyclic_calls) ''/'' = None"
proof (intro conjI)
  show "outcomes ''/'' new_vfs cyclic_calls = Some [Inr (), Inr (), Inr (), Inr (), Inr ()]"
    by code_simp
  show "reachable ''/'' (final ''/'' new_vfs cyclic_calls)"
    by (rule reachable_final [OF reachable_new_vfs])
  have c: "currentDir (final ''/'' new_vfs cyclic_calls) = 2"
    by code_simp
  have "parent (dirs (final ''/'' new_vfs cyclic_calls) 2) = Some 2"
    by code_simp
  then have "getRoot (final ''/'' new_vfs cyclic_calls) = None"
    unfolding getRoot_def c by (rule getRoot_loop_self)
  then show "removeDirectory (final ''/'' new_vfs cyclic_calls) ''/'' = None"
    by (simp add: removeDirectory_def getTargetDirectory_root)
qed

section \<open>Uniqueness of names in a directory\<close>

definition uniqueness :: "vfs \<Rightarrow> addr \<Rightarrow> bool" where
  "uniqueness s d \<longleftrightarrow>
     fst ` set (directoriesByName (dirs s d)) \<inter> fst ` set (filesByName (dirs s d)) = {}"

definition all_unique :: "vfs \<Rightarrow> bool" where
  "all_unique s \<longleftrightarrow> (\<forall>d. uniqueness s d)"

lemma all_unique_cong: "dirs s' = dirs s \<Longrightarrow> all_unique s' = all_unique s"
  by (simp add: all_unique_def uniqueness_def)

lemma dom_alist_delete: "fst ` set (AList.delete k al) = fst ` set al - {k}"
  by (auto simp: AList.delete_eq)

lemma addDirectory_effect:
  assumes "addDirectory s t d = Inr s1"
  shows "filesByName (dirs s1 a) = filesByName (dirs s a)"
    and "directoriesByName (dirs s1 a) =
          (if a = t then AList.update (name (dirs s d)) d (directoriesByName (dirs s t))
           else directoriesByName (dirs s a))"
    and "name (dirs s1 a) = name (dirs s a)"
    and "parent (dirs s1 a) = (if a = d then Some t else parent (dirs s a))"
    and "files s1 = files s"
    and "map_of (filesByName (dirs s t)) (name (dirs s d)) = None"
  using assms by (auto simp: addDirectory_def hasFile_def Let_def split: if_splits)

lemma addFile_effect:
  assumes "addFile s t f = Inr s1"
  shows "directoriesByName (dirs s1 a) = directoriesByName (dirs s a)"
    and "filesByName (dirs s1 a) =
          (if a = t then AList.update (fname (files s f)) f (filesByName (dirs s t))
           else filesByName (dirs s a))"
    and "name (dirs s1 a) = name (dirs s a)"
    and "parent (dirs s1 a) = parent (dirs s a)"
    and "files s1 = (files s)(f := (files s f)\<lparr>fparent := t\<rparr>)"
    and "map_of (directoriesByName (dirs s t)) (fname (files s f)) = None"
  using assms by (auto simp: addFile_def hasDirectory_def Let_def split: if_splits)

lemma Directory_removeDirectory_effect:
  assumes "Directory_removeDirectory s t n = Inr s1"
  shows "filesByName (dirs s1 a) = filesByName (dirs s a)"
    and "directoriesByName (dirs s1 a) =
          (if a = t then AList.delete n (directoriesByName (dirs s t))
           else directoriesByName (dirs s a))"
    and "name (dirs s1 a) = name (dirs s a)"
    and "parent (dirs s1 a) = parent (dirs s a)"
    and "files s1 = files s"
  using assms by (auto simp: Directory_removeDirectory_def split: if_splits)

lemma Directory_removeFile_effect:
  shows "directoriesByName (dirs (Directory_removeFile s t n) a) = directoriesByName (dirs s a)"
    and "filesByName (dirs (Directory_removeFile s t n) a) =
          (if a = t then AList.delete n (filesByName (dirs s t))
           else filesByName (dirs s a))"
    and "name (dirs (Directory_removeFile s t n) a) = name (dirs s a)"
    and "parent (dirs (Directory_removeFile s t n) a) = parent (dirs s a)"
    and "files (Directory_removeFile s t n) = files s"
  by (auto simp: Directory_removeFile_def)

lemma all_unique_addDirectory:
  assumes "addDirectory s t d = Inr s1" and "all_unique s"
  shows "all_unique s1"
  unfolding all_unique_def uniqueness_def
proof
  fix a
  from assms(2) have u: "fst ` set (directoriesByName (dirs s a)) \<inter> fst ` set (filesByName (dirs s a)) = {}"
    by (simp add: all_unique_def uniqueness_def)
  from addDirectory_effect(6) [OF assms(1)]
  have "name (dirs s d) \<notin> fst ` set (filesByName (dirs s t))"
    by (simp add: map_of_eq_None_iff)
  with u show "fst ` set (directoriesByName (dirs s1 a)) \<inter> fst ` set (filesByName (dirs s1 a)) = {}"
    by (cases "a = t") (simp_all add: addDirectory_effect [OF assms(1)] AList.dom_update)
qed

lemma all_unique_addFile:
  assumes "addFile s t f = Inr s1" and "all_unique s"
  shows "all_unique s1"
  unfolding all_unique_def uniqueness_def
proof
  fix a
  from assms(2) have u: "fst ` set (directoriesByName (dirs s a)) \<inter> fst ` set (filesByName (dirs s a)) = {}"
    by (simp add: all_unique_def uniqueness_def)
  from addFile_effect(6) [OF assms(1)]
  have "fname (files s f) \<notin> fst ` set (directoriesByName (dirs s t))"
    by (simp add: map_of_eq_None_iff)
  with u show "fst ` set (directoriesByName (dirs s1 a)) \<inter> fst ` set (filesByName (dirs s1 a)) = {}"
    by (cases "a = t") (simp_all add: addFile_effect [OF assms(1)] AList.dom_update)
qed

lemma all_unique_Directory_removeDirectory:
  assumes "Directory_removeDirectory s t n = Inr s1" and "all_unique s"
  shows "all_unique s1"
  unfolding all_unique_def uniqueness_def
proof
  fix a
  from assms(2) have u: "fst ` set (directoriesByName (dirs s a)) \<inter> fst ` set (filesByName (dirs s a)) = {}"
    by (simp add: all_unique_def uniqueness_def)
  then show "fst ` set (directoriesByName (dirs s1 a)) \<inter> fst ` set (filesByName (dirs s1 a)) = {}"
    by (auto simp: Directory_removeDirectory_effect [OF assms(1)] dom_alist_delete)
qed

lemma all_unique_Directory_removeFile:
  assumes "all_unique s"
  shows "all_unique (Directory_removeFile s t n)"
  unfolding all_unique_def uniqueness_def
proof
  fix a
  from assms have u: "fst ` set (directoriesByName (dirs s a)) \<inter> fst ` set (filesByName (dirs s a)) = {}"
    by (simp add: all_unique_def uniqueness_def)
  then show "fst ` set (directoriesByName (dirs (Directory_removeFile s t n) a))
      \<inter> fst ` set (filesByName (dirs (Directory_removeFile s t n) a)) = {}"
    by (auto simp: Directory_removeFile_effect dom_alist_delete)
qed

lemma all_unique_new_Directory:
  assumes "new_Directory s p n = (d, s1)" and "all_unique s"
  shows "all_unique s1"
  unfolding all_unique_def uniqueness_def
proof
  fix a
  from assms(2) have u: "fst ` set (directoriesByName (dirs s a)) \<inter> fst ` set (filesByName (dirs s a)) = {}"
    by (simp add: all_unique_def uniqueness_def)
  from assms(1) have "dirs s1 = (dirs s)(nextDir s :=
      \<lparr>parent = p, name = n, filesByName = [], directoriesByName = []\<rparr>)"
    by (auto simp: new_Directory_def)
  with u show "fst ` set (directoriesByName (dirs s1 a)) \<inter> fst ` set (filesByName (dirs s1 a)) = {}"
    by simp
qed

lemma all_unique_new_File:
  assumes "new_File s p n c = (f, s1)" and "all_unique s"
  shows "all_unique s1"
proof -
  from assms(1) have "dirs s1 = dirs s"
    by (auto simp: new_File_def)
  then have "all_unique s1 = all_unique s"
    by (rule all_unique_cong)
  with assms(2) show ?thesis
    by simp
qed

lemma all_unique_rename:
  assumes "all_unique s"
  shows "all_unique (upd_dir s d (\<lambda>x. x\<lparr>name := n, parent := p\<rparr>))"
  unfolding all_unique_def uniqueness_def
proof
  fix a
  from assms have u: "fst ` set (directoriesByName (dirs s a)) \<inter> fst ` set (filesByName (dirs s a)) = {}"
    by (simp add: all_unique_def uniqueness_def)
  then show "fst ` set (directoriesByName (dirs (upd_dir s d (\<lambda>x. x\<lparr>name := n, parent := p\<rparr>)) a))
      \<inter> fst ` set (filesByName (dirs (upd_dir s d (\<lambda>x. x\<lparr>name := n, parent := p\<rparr>)) a)) = {}"
    by (cases "a = d") simp_all
qed

lemma all_unique_upd_file [simp]: "all_unique (upd_file s f g) = all_unique s"
  by (rule all_unique_cong) simp

lemma all_unique_fields [simp]:
  "all_unique (s\<lparr>totalFileContentBytes := n\<rparr>) = all_unique s"
  "all_unique (s\<lparr>currentDir := c\<rparr>) = all_unique s"
  "all_unique (s\<lparr>maxBytes := m\<rparr>) = all_unique s"
  by (rule all_unique_cong, simp)+

lemma all_unique_Directory_update:
  assumes "Directory_update s d n p = (r, s1)" and "all_unique s"
  shows "all_unique s1"
  using assms
  by (auto simp: Directory_update_def Let_def split: option.splits if_splits sum.splits)
     (blast intro: all_unique_rename all_unique_addDirectory
        all_unique_Directory_removeDirectory)+

lemma all_unique_File_update:
  assumes "File_update s f n p c = (r, s1)" and "all_unique s"
  shows "all_unique s1"
  using assms
  by (auto simp: File_update_def Let_def split: sum.splits
      intro: all_unique_Directory_removeFile dest: all_unique_addFile)

lemma all_unique_createAndAddDirectory:
  assumes "createAndAddDirectory s t n = (r, s1)" and "all_unique s"
  shows "all_unique s1"
  using assms
  by (auto simp: createAndAddDirectory_def Let_def split: if_splits prod.splits sum.splits
      dest: all_unique_new_Directory all_unique_addDirectory)

lemma all_unique_createAndAddFile:
  assumes "createAndAddFile s t n c = (r, s1)" and "all_unique s"
  shows "all_unique s1"
  using assms
  by (auto simp: createAndAddFile_def Let_def split: if_splits prod.splits sum.splits
      dest: all_unique_new_File all_unique_addFile)

lemma all_unique_exec:
  assumes "exec pcwd s c = Some (r, s')" and "all_unique s"
  shows "all_unique s'"
proof (cases c)
  case (ChangeDirectory p)
  with assms show ?thesis
    by (auto simp: changeDirectory_def Let_def split: option.splits)
next
  case (MakeDirectory p)
  with assms show ?thesis
    by (auto simp: makeDirectory_def Let_def split: option.splits if_splits
        dest: all_unique_createAndAddDirectory)
next
  case (MakeFile p)
  with assms show ?thesis
    by (auto simp: makeFile_def Let_def split: option.splits if_splits
        dest: all_unique_createAndAddFile)
next
  case (RemoveDirectory p)
  with assms show ?thesis
    by (auto simp: removeDirectory_def Let_def split: option.splits sum.splits
        dest: all_unique_Directory_removeDirectory)
next
  case (RemoveFile p)
  with assms show ?thesis
    by (auto simp: removeFile_def Let_def split: option.splits if_splits
        intro: all_unique_Directory_removeFile)
next
  case (WriteFile p c)
  with assms show ?thesis
    by (auto simp: writeFile_def Let_def setContent_def split: option.splits if_splits)
next
  case (MoveFile p t)
  with assms show ?thesis
    by (auto simp: moveFile_def Let_def split: option.splits sum.splits
        intro: all_unique_Directory_removeFile dest: all_unique_addFile)
next
  case (RenameFile p n)
  with assms show ?thesis
    by (auto simp: renameFile_def Let_def split: option.splits sum.splits prod.splits
        intro: all_unique_Directory_removeFile dest: all_unique_File_update)
next
  case (RenameDirectory p n)
  with assms show ?thesis
    by (auto simp: renameDirectory_def Let_def
        split: option.splits sum.splits prod.splits if_splits
        dest: all_unique_Directory_update all_unique_Directory_removeDirectory)
next
  case (MoveDirectory p t)
  with assms show ?thesis
    by (auto simp: moveDirectory_def Let_def
        split: option.splits sum.splits prod.splits if_splits
        dest: all_unique_addDirectory all_unique_Directory_removeDirectory)
qed

lemma all_unique_new_vfs: "all_unique new_vfs"
  by (simp add: all_unique_def uniqueness_def new_vfs_def)

lemma reachable_all_unique:
  "reachable pcwd s \<Longrightarrow> all_unique s"
proof (induction rule: reachable.induct)
  case (fresh m)
  show ?case
    by (simp add: all_unique_new_vfs)
next
  case (call s c r s')
  then show ?case
    by (blast intro: all_unique_exec)
qed

text \<open>
  C4. In every reachable state (the fresh file system and every state that a sequence
  of operations leaves, the operations that throw included) and for every directory
  object \<open>d\<close> of the store, in the tree or not, no name is a key of both the directory
  collection and the file collection of \<open>d\<close>.
\<close>

theorem reachable_uniqueness:
  assumes "reachable pcwd s"
  shows "fst ` set (directoriesByName (dirs s d)) \<inter> fst ` set (filesByName (dirs s d)) = {}"
  using reachable_all_unique [OF assms] by (simp add: all_unique_def uniqueness_def)

text \<open>The theorem at the root of a state left by a call that threw.\<close>

theorem reachable_uniqueness_witness:
  "reachable ''/'' (final ''/'' new_vfs (rename_clash_calls @ [RenameFile ''x'' ''d'']))
   \<and> directoriesByName (dirs (final ''/'' new_vfs (rename_clash_calls @ [RenameFile ''x'' ''d''])) 0)
       = [(''d'', 1)]
   \<and> filesByName (dirs (final ''/'' new_vfs (rename_clash_calls @ [RenameFile ''x'' ''d''])) 0)
       = [(''x'', 0)]
   \<and> fst ` set (directoriesByName
         (dirs (final ''/'' new_vfs (rename_clash_calls @ [RenameFile ''x'' ''d''])) 0))
       \<inter> fst ` set (filesByName
         (dirs (final ''/'' new_vfs (rename_clash_calls @ [RenameFile ''x'' ''d''])) 0)) = {}"
proof -
  have r: "reachable ''/'' (final ''/'' new_vfs (rename_clash_calls @ [RenameFile ''x'' ''d'']))"
    by (rule reachable_final [OF reachable_new_vfs])
  have "directoriesByName (dirs (final ''/'' new_vfs (rename_clash_calls @ [RenameFile ''x'' ''d''])) 0)
       = [(''d'', 1)]"
    "filesByName (dirs (final ''/'' new_vfs (rename_clash_calls @ [RenameFile ''x'' ''d''])) 0)
       = [(''x'', 0)]"
    by code_simp+
  with r reachable_uniqueness [OF r, of 0] show ?thesis
    by simp
qed

section \<open>Moving a file into its own directory\<close>

text \<open>
  \<open>file_entries s f\<close> lists the places where the file \<open>f\<close> is listed: the directory
  objects of the store and the keys under which their file collections hold \<open>f\<close>.
\<close>

definition file_entries :: "vfs \<Rightarrow> addr \<Rightarrow> (addr \<times> string) list" where
  "file_entries s f =
     concat (map (\<lambda>d. map (\<lambda>e. (d, fst e)) (filter (\<lambda>e. snd e = f) (filesByName (dirs s d))))
               [0..<nextDir s])"

definition st_x :: vfs where
  "st_x = final ''/'' new_vfs [MakeFile ''x'']"

definition stale_calls :: "call list" where
  "stale_calls =
     [MakeFile ''x'', MakeDirectory ''d'', RenameFile ''x'' ''d'', RemoveDirectory ''d'']"

lemma set_file_entries:
  "set (file_entries s f) = {(d, k). d < nextDir s \<and> (k, f) \<in> set (filesByName (dirs s d))}"
  by (auto simp: file_entries_def image_iff)

lemma file_entries_empty_iff:
  "file_entries s f = [] \<longleftrightarrow> (\<forall>d k. d < nextDir s \<longrightarrow> (k, f) \<notin> set (filesByName (dirs s d)))"
proof -
  have "file_entries s f = [] \<longleftrightarrow> set (file_entries s f) = {}"
    by simp
  also have "\<dots> \<longleftrightarrow> (\<forall>d k. d < nextDir s \<longrightarrow> (k, f) \<notin> set (filesByName (dirs s d)))"
    unfolding set_file_entries by auto
  finally show ?thesis .
qed

lemma set_alist_update:
  "(a, b) \<in> set (AList.update k v al) \<Longrightarrow> (a = k \<and> b = v) \<or> (a, b) \<in> set al"
  by (induction al) (auto split: if_splits)

lemma set_alist_delete:
  "(a, b) \<in> set (AList.delete k al) \<longleftrightarrow> a \<noteq> k \<and> (a, b) \<in> set al"
  by (auto simp: AList.delete_eq)

lemma addFile_nextDir: "addFile s t f = Inr s1 \<Longrightarrow> nextDir s1 = nextDir s"
  by (auto simp: addFile_def Let_def split: if_splits)

lemma Directory_removeFile_nextDir [simp]: "nextDir (Directory_removeFile s t n) = nextDir s"
  by (simp add: Directory_removeFile_def)

lemma addFile_succeeds:
  assumes "all_unique s" and "(n, g) \<in> set (filesByName (dirs s t))" and "fname (files s f) = n"
  shows "\<exists>s1. addFile s t f = Inr s1"
proof -
  from assms(1) have "fst ` set (directoriesByName (dirs s t)) \<inter> fst ` set (filesByName (dirs s t)) = {}"
    by (simp add: all_unique_def uniqueness_def)
  with assms(2) have "n \<notin> fst ` set (directoriesByName (dirs s t))"
    by force
  then have "map_of (directoriesByName (dirs s t)) n = None"
    by (simp add: map_of_eq_None_iff)
  with assms(3) show ?thesis
    by (simp add: addFile_def hasDirectory_def Let_def)
qed

text \<open>Adding a file under a name and deleting that name again leaves no entry for it,
  when the name was the only key it was listed under.\<close>

lemma re_add_then_remove:
  assumes only: "\<And>d k. d < nextDir s \<Longrightarrow> (k, f) \<in> set (filesByName (dirs s d)) \<Longrightarrow> d = t \<and> k = n"
    and add: "addFile s t f = Inr s1"
    and nm: "fname (files s f) = n"
  shows "file_entries (Directory_removeFile s1 t n) f = []"
  unfolding file_entries_empty_iff
proof (intro allI impI notI)
  fix d k
  assume d: "d < nextDir (Directory_removeFile s1 t n)"
    and e: "(k, f) \<in> set (filesByName (dirs (Directory_removeFile s1 t n) d))"
  from d have d': "d < nextDir s"
    by (simp add: addFile_nextDir [OF add])
  show False
  proof (cases "d = t")
    case True
    with e have "k \<noteq> n" and "(k, f) \<in> set (AList.update n f (filesByName (dirs s t)))"
      by (simp_all add: Directory_removeFile_effect addFile_effect [OF add] nm set_alist_delete)
    then have "(k, f) \<in> set (filesByName (dirs s t))"
      by (auto dest: set_alist_update)
    with only [of t k] d' True \<open>k \<noteq> n\<close> show False
      by simp
  next
    case False
    with e have "(k, f) \<in> set (filesByName (dirs s d))"
      by (simp add: Directory_removeFile_effect addFile_effect [OF add])
    with only [of d k] d' False show False
      by simp
  qed
qed

lemma file_entries_removeFile_empty:
  assumes "file_entries s f = []"
  shows "file_entries (Directory_removeFile s t n) f = []"
  using assms unfolding file_entries_empty_iff
  by (auto simp: Directory_removeFile_effect set_alist_delete split: if_splits)

text \<open>
  Where the listing is consistent, the program does what C9 says. In a reachable state,
  let \<open>f\<close> be a file that is listed in exactly one place: in the file collection of its
  parent, under its own name. Then \<open>moveFile\<close> with a source path that resolves to \<open>f\<close>
  and a target path that resolves to the parent of \<open>f\<close> returns normally and leaves \<open>f\<close>
  in no file collection, and so does \<open>renameFile\<close> with the current name of \<open>f\<close> as the
  new name.
\<close>

theorem move_to_own_parent_removes:
  assumes reach: "reachable pcwd s"
    and res: "getTargetFile s path = Some (Some f)"
    and once: "set (file_entries s f) = {(fparent (files s f), fname (files s f))}"
  shows "(\<forall>target. getTargetDirectory s target = Some (Some (fparent (files s f))) \<longrightarrow>
           (\<exists>s'. moveFile s path target = Some (Inr (), s') \<and> file_entries s' f = []))
       \<and> (\<exists>s'. renameFile s path (fname (files s f)) = Some (Inr (), s') \<and> file_entries s' f = [])"
proof -
  let ?t = "fparent (files s f)" and ?n = "fname (files s f)"
  from once have listed: "(?n, f) \<in> set (filesByName (dirs s ?t))"
    and only: "\<And>d k. d < nextDir s \<Longrightarrow> (k, f) \<in> set (filesByName (dirs s d)) \<Longrightarrow> d = ?t \<and> k = ?n"
    unfolding set_file_entries by auto
  have uniq: "all_unique s"
    using reach by (rule reachable_all_unique)
  from addFile_succeeds [OF uniq listed refl]
  obtain s1 where add: "addFile s ?t f = Inr s1" ..
  have nm1: "fname (files s1 f) = ?n"
    by (simp add: addFile_effect [OF add])
  have gone: "file_entries (Directory_removeFile s1 ?t ?n) f = []"
    using only add refl by (rule re_add_then_remove)
  have move: "\<exists>s'. moveFile s path target = Some (Inr (), s') \<and> file_entries s' f = []"
    if "getTargetDirectory s target = Some (Some ?t)" for target
    using that res add gone by (simp add: moveFile_def nm1)
  \<comment> \<open>\<open>File.update\<close> with the current name writes the fields it read.\<close>
  have same: "upd_file s f (\<lambda>x. x\<lparr>fname := ?n, content := content (files s f)\<rparr>) = s"
    by (simp add: upd_file_def)
  have upd: "File_update s f (Some ?n) None None = (Inr (), Directory_removeFile s1 ?t ?n)"
    by (simp add: File_update_def Let_def same add)
  have par: "fparent (files (Directory_removeFile s1 ?t ?n) f) = ?t"
    by (simp add: Directory_removeFile_effect addFile_effect [OF add])
  have "renameFile s path ?n
      = Some (Inr (), Directory_removeFile (Directory_removeFile s1 ?t ?n) ?t (basename path))"
    using res by (simp add: renameFile_def upd par)
  moreover have "file_entries (Directory_removeFile (Directory_removeFile s1 ?t ?n) ?t (basename path)) f = []"
    using gone by (rule file_entries_removeFile_empty)
  ultimately have "\<exists>s'. renameFile s path ?n = Some (Inr (), s') \<and> file_entries s' f = []"
    by simp
  with move show ?thesis
    by blast
qed

text \<open>The theorem at a single file \<open>x\<close> in the root.\<close>

theorem move_to_own_parent_removes_witness:
  "reachable ''/'' st_x
   \<and> getTargetFile st_x ''x'' = Some (Some 0)
   \<and> set (file_entries st_x 0) = {(fparent (files st_x 0), fname (files st_x 0))}
   \<and> getTargetDirectory st_x ''.'' = Some (Some (fparent (files st_x 0)))
   \<and> map_option fst (moveFile st_x ''x'' ''.'') = Some (Inr ())
   \<and> file_entries (snd (the (moveFile st_x ''x'' ''.''))) 0 = []
   \<and> map_option fst (renameFile st_x ''x'' (fname (files st_x 0))) = Some (Inr ())
   \<and> file_entries (snd (the (renameFile st_x ''x'' (fname (files st_x 0))))) 0 = []"
proof -
  have h1: "reachable ''/'' st_x"
    unfolding st_x_def by (rule reachable_final [OF reachable_new_vfs])
  have h2: "getTargetFile st_x ''x'' = Some (Some 0)"
    by code_simp
  have h3: "set (file_entries st_x 0) = {(fparent (files st_x 0), fname (files st_x 0))}"
    by code_simp
  have h4: "getTargetDirectory st_x ''.'' = Some (Some (fparent (files st_x 0)))"
    by code_simp
  from move_to_own_parent_removes [OF h1 h2 h3] h4
  obtain s' s'' where "moveFile st_x ''x'' ''.'' = Some (Inr (), s')" "file_entries s' 0 = []"
    "renameFile st_x ''x'' (fname (files st_x 0)) = Some (Inr (), s'')" "file_entries s'' 0 = []"
    by blast
  with h1 h2 h3 h4 show ?thesis
    by simp
qed

text \<open>
  C9 says that \<open>moveFile\<close> with a source path that resolves to a file of the tree and a
  target path that resolves to the parent of that file leaves the file in no file
  collection. The program does otherwise where the file is listed under a key that is
  not its name, which \<open>File.update\<close> brings about when it renames before \<open>addFile\<close>
  throws: after \<open>renameFile('x', 'd')\<close> has thrown against a directory \<open>d\<close> and \<open>d\<close> has been
  removed, the file is named \<open>d\<close> and listed under \<open>x\<close>; \<open>moveFile('x', '.')\<close> then sets and
  deletes the key \<open>d\<close> and leaves the file listed under \<open>x\<close>.
\<close>

theorem moveFile_keeps_stale_entry:
  "outcomes ''/'' new_vfs (stale_calls @ [MoveFile ''x'' ''.''])
     = Some [Inr (), Inr (), Inl AmbiguousPath, Inr (), Inr ()]
   \<and> reachable ''/'' (final ''/'' new_vfs stale_calls)
   \<and> getTargetFile (final ''/'' new_vfs stale_calls) ''x'' = Some (Some 0)
   \<and> getTargetDirectory (final ''/'' new_vfs stale_calls) ''.''
       = Some (Some (fparent (files (final ''/'' new_vfs stale_calls) 0)))
   \<and> file_entries (final ''/'' new_vfs stale_calls) 0 = [(0, ''x'')]
   \<and> file_entries (final ''/'' new_vfs (stale_calls @ [MoveFile ''x'' ''.''])) 0 = [(0, ''x'')]
   \<and> getTargetFile (final ''/'' new_vfs (stale_calls @ [MoveFile ''x'' ''.''])) ''x'' = Some (Some 0)"
proof (intro conjI)
  show "reachable ''/'' (final ''/'' new_vfs stale_calls)"
    by (rule reachable_final [OF reachable_new_vfs])
qed code_simp+

section \<open>From a node to its path and back\<close>

text \<open>
  A name is plain when it is not empty, has no separator and is neither \<open>.\<close> nor \<open>..\<close>.
  \<open>descend s p ns\<close> follows the plain names \<open>ns\<close> down from the directory \<open>p\<close>, through
  entries whose key is the name of the directory they hold and whose directory has the
  listing directory as its parent.
\<close>

definition plain :: "string \<Rightarrow> bool" where
  "plain n \<longleftrightarrow> n \<noteq> [] \<and> CHR ''/'' \<notin> set n \<and> n \<noteq> ''.'' \<and> n \<noteq> ''..''"

fun descend :: "vfs \<Rightarrow> addr \<Rightarrow> string list \<Rightarrow> addr option" where
  "descend s p [] = Some p"
| "descend s p (n # ns) =
     (if plain n then
        (case map_of (directoriesByName (dirs s p)) n of
           None \<Rightarrow> None
         | Some d \<Rightarrow>
             if name (dirs s d) = n \<and> parent (dirs s d) = Some p then descend s d ns else None)
      else None)"

definition slash_name_calls :: "call list" where
  "slash_name_calls = [MakeFile ''x'', RenameFile ''x'' ''a/b'']"

subsection \<open>Paths of plain names\<close>

lemma plain_nonempty: "plain n \<Longrightarrow> n \<noteq> []"
  by (simp add: plain_def)

lemma plain_slashfree: "plain n \<Longrightarrow> CHR ''/'' \<notin> set n"
  by (simp add: plain_def)

lemma plain_not_dots: "plain n \<Longrightarrow> n \<noteq> ''.'' \<and> n \<noteq> ''..''"
  by (simp add: plain_def)

lemma split_slash_nonempty [simp]: "split_slash w \<noteq> []"
  by (induction w) (auto split: list.splits)

lemma split_slash_no_slash: "CHR ''/'' \<notin> set w \<Longrightarrow> split_slash w = [w]"
  by (induction w) auto

lemma split_slash_append:
  "CHR ''/'' \<notin> set w \<Longrightarrow> split_slash (w @ CHR ''/'' # v) = w # split_slash v"
  by (induction w) auto

lemma split_join_slash:
  "ms \<noteq> [] \<Longrightarrow> \<forall>w\<in>set ms. CHR ''/'' \<notin> set w \<Longrightarrow> split_slash (join_slash ms) = ms"
proof (induction ms rule: join_slash.induct)
  case 1
  then show ?case by simp
next
  case (2 w)
  then show ?case by (simp add: split_slash_no_slash)
next
  case (3 w v ws)
  then show ?case by (simp add: split_slash_append)
qed

lemma normalizeSegments_plain:
  "\<forall>w\<in>set ms. w = [] \<or> plain w \<Longrightarrow>
     normalizeSegments a acc ms = acc @ filter (\<lambda>w. w \<noteq> []) ms"
proof (induction ms arbitrary: acc)
  case Nil
  then show ?case by simp
next
  case (Cons w ms)
  then have w: "w = [] \<or> plain w" and rest: "\<forall>w\<in>set ms. w = [] \<or> plain w"
    by simp_all
  from w show ?case
  proof
    assume "w = []"
    then show ?thesis
      by (simp add: Cons.IH [OF rest])
  next
    assume "plain w"
    then have "w \<noteq> []" "w \<noteq> ''.''" "w \<noteq> ''..''"
      by (simp_all add: plain_def)
    then show ?thesis
      by (simp add: Cons.IH [OF rest])
  qed
qed
lemma join_slash_snoc: "ns \<noteq> [] \<Longrightarrow> join_slash (ns @ [n]) = join_slash ns @ CHR ''/'' # n"
  by (induction ns rule: join_slash.induct) auto

lemma join_slash_hd_nonempty: "ns \<noteq> [] \<Longrightarrow> hd ns \<noteq> [] \<Longrightarrow> join_slash ns \<noteq> []"
  by (induction ns rule: join_slash.induct) auto

lemma join_slash_last_nonempty: "ns \<noteq> [] \<Longrightarrow> last ns \<noteq> [] \<Longrightarrow> join_slash ns \<noteq> []"
  by (induction ns rule: join_slash.induct) auto

lemma last_join_slash: "ns \<noteq> [] \<Longrightarrow> last ns \<noteq> [] \<Longrightarrow> last (join_slash ns) = last (last ns)"
proof (induction ns rule: join_slash.induct)
  case (3 w v ws)
  then have "join_slash (v # ws) \<noteq> []"
    by (intro join_slash_last_nonempty) auto
  with 3 show ?case
    by simp
qed auto

text \<open>normalize leaves an absolute path of plain names as it is, and removes a doubled
  separator at its start.\<close>

lemma normalize_absolute:
  assumes "\<forall>w\<in>set ms. w = [] \<or> plain w" and "ms \<noteq> []" and "plain (last ms)"
  shows "normalize (CHR ''/'' # join_slash ms) = CHR ''/'' # join_slash (filter (\<lambda>w. w \<noteq> []) ms)"
proof -
  from assms(1) have slashfree: "\<forall>w\<in>set ms. CHR ''/'' \<notin> set w"
    using plain_slashfree by fastforce
  from assms(3) have ln: "last ms \<noteq> []" and ls: "CHR ''/'' \<notin> set (last ms)"
    by (simp_all add: plain_nonempty plain_slashfree)
  have "last (last ms) \<in> set (last ms)"
    using ln by simp
  with ls have "last (last ms) \<noteq> CHR ''/''"
    by auto
  then have "last (join_slash ms) \<noteq> CHR ''/''"
    by (simp add: last_join_slash [OF assms(2) ln])
  moreover have "join_slash ms \<noteq> []"
    using assms(2) ln by (rule join_slash_last_nonempty)
  ultimately have nt: "last (CHR ''/'' # join_slash ms) \<noteq> CHR ''/''"
    by simp
  have "last ms \<in> set ms"
    using assms(2) by simp
  with ln have fne: "filter (\<lambda>w. w \<noteq> []) ms \<noteq> []"
    by (auto simp: filter_empty_conv)
  then have "hd (filter (\<lambda>w. w \<noteq> []) ms) \<noteq> []"
    using hd_in_set [of "filter (\<lambda>w. w \<noteq> []) ms"] by auto
  with fne have ne: "join_slash (filter (\<lambda>w. w \<noteq> []) ms) \<noteq> []"
    by (rule join_slash_hd_nonempty)
  have "normalizeString (CHR ''/'' # join_slash ms) False
      = join_slash (filter (\<lambda>w. w \<noteq> []) ms)"
    using assms(1)
    by (simp add: normalizeString_def split_join_slash [OF assms(2) slashfree]
        normalizeSegments_plain)
  with nt ne show ?thesis
    by (simp add: normalize_def Let_def)
qed

lemma basename_last:
  assumes "n \<noteq> []" and "CHR ''/'' \<notin> set n"
  shows "basename (pre @ CHR ''/'' # n) = n"
proof -
  from assms have "rev n \<noteq> []" and "hd (rev n) \<noteq> CHR ''/''"
    using hd_in_set [of "rev n"] by auto
  then obtain c cs where r: "rev n = c # cs" and c: "c \<noteq> CHR ''/''"
    by (cases "rev n") auto
  have nf: "x \<noteq> CHR ''/''" if "x \<in> set (rev n)" for x
    using that assms(2) by auto
  have "takeWhile (\<lambda>c. c \<noteq> CHR ''/'') (rev n @ CHR ''/'' # rev pre) = rev n"
    using takeWhile_append2 [of "rev n" "\<lambda>c. c \<noteq> CHR ''/''" "CHR ''/'' # rev pre"] nf
    by simp
  then show ?thesis
    using r c by (simp add: basename_def)
qed

lemma dirname_top:
  assumes "n \<noteq> []" and "CHR ''/'' \<notin> set n"
  shows "dirname (CHR ''/'' # n) = ''/''"
proof -
  from assms have "rev n \<noteq> []" and "hd (rev n) \<noteq> CHR ''/''"
    using hd_in_set [of "rev n"] by auto
  then obtain c cs where r: "rev n = c # cs" and c: "c \<noteq> CHR ''/''"
    by (cases "rev n") auto
  have "dropWhile (\<lambda>c. c \<noteq> CHR ''/'') (rev n) = []"
    using assms(2) by auto
  then show ?thesis
    using r c by (simp add: dirname_def Let_def)
qed

lemma dirname_deeper:
  assumes "n \<noteq> []" and "CHR ''/'' \<notin> set n" and "q \<noteq> []"
  shows "dirname (CHR ''/'' # q @ CHR ''/'' # n) = CHR ''/'' # q"
proof -
  from assms have "rev n \<noteq> []" and "hd (rev n) \<noteq> CHR ''/''"
    using hd_in_set [of "rev n"] by auto
  then obtain c cs where r: "rev n = c # cs" and c: "c \<noteq> CHR ''/''"
    by (cases "rev n") auto
  have nf: "x \<noteq> CHR ''/''" if "x \<in> set (rev n)" for x
    using that assms(2) by auto
  have "dropWhile (\<lambda>c. c \<noteq> CHR ''/'') (rev n @ CHR ''/'' # rev q) = CHR ''/'' # rev q"
    using dropWhile_append2 [of "rev n" "\<lambda>c. c \<noteq> CHR ''/''" "CHR ''/'' # rev q"] nf
    by simp
  then show ?thesis
    using r c assms(3) by (simp add: dirname_def Let_def)
qed

lemma normalize_step:
  assumes "\<forall>w\<in>set ns. plain w" and "plain n"
  shows "normalize ((CHR ''/'' # join_slash ns) @ ''/'' @ n) = CHR ''/'' # join_slash (ns @ [n])"
proof (cases "ns = []")
  case True
  have "normalize (CHR ''/'' # join_slash [[], n]) = CHR ''/'' # join_slash (filter (\<lambda>w. w \<noteq> []) [[], n])"
    by (rule normalize_absolute) (simp_all add: assms(2))
  with True plain_nonempty [OF assms(2)] show ?thesis
    by simp
next
  case False
  have all: "\<forall>w\<in>set (ns @ [n]). w = [] \<or> plain w"
    using assms by simp
  have "normalize (CHR ''/'' # join_slash (ns @ [n]))
      = CHR ''/'' # join_slash (filter (\<lambda>w. w \<noteq> []) (ns @ [n]))"
    by (rule normalize_absolute [OF all]) (simp_all add: assms(2))
  moreover have "filter (\<lambda>w. w \<noteq> []) (ns @ [n]) = ns @ [n]"
    using assms plain_nonempty by (auto simp: filter_id_conv)
  ultimately show ?thesis
    using False by (simp add: join_slash_snoc)
qed

lemma descend_append:
  "descend s a (xs @ ys) = Option.bind (descend s a xs) (\<lambda>b. descend s b ys)"
  by (induction xs arbitrary: a) (auto split: option.splits)

lemma descend_snoc:
  assumes "descend s a (ns @ [n]) = Some d"
  obtains p where "descend s a ns = Some p" and "plain n"
    and "map_of (directoriesByName (dirs s p)) n = Some d"
    and "name (dirs s d) = n" and "parent (dirs s d) = Some p"
  using assms
  by (auto simp: descend_append split: Option.bind_splits option.splits if_splits)

lemma descend_plain: "descend s a ns = Some d \<Longrightarrow> \<forall>w\<in>set ns. plain w"
  by (induction ns arbitrary: a) (auto split: option.splits if_splits)

lemma plain_not_special:
  assumes "plain n"
  shows "n \<notin> set MOVE_UP_PATHS" and "n \<notin> set CURRENT_DIR_PATHS"
proof -
  from assms have "n \<noteq> ''.''" "n \<noteq> ''..''" "CHR ''/'' \<notin> set n"
    by (simp_all add: plain_def)
  then have "n \<noteq> ''../''" "n \<noteq> ''./''"
    by auto
  with \<open>n \<noteq> ''.''\<close> \<open>n \<noteq> ''..''\<close>
  show "n \<notin> set MOVE_UP_PATHS" and "n \<notin> set CURRENT_DIR_PATHS"
    by (simp_all add: MOVE_UP_PATHS_def CURRENT_DIR_PATHS_def)
qed

lemma walk_descend: "descend s a ns = Some b \<Longrightarrow> walk s a ns = Some b"
proof (induction ns arbitrary: a)
  case Nil
  then show ?case by simp
next
  case (Cons n ns)
  from Cons.prems have pl: "plain n"
    by (simp split: if_splits)
  from Cons.prems pl obtain d where d: "map_of (directoriesByName (dirs s a)) n = Some d"
    and rest: "descend s d ns = Some b"
    by (auto split: option.splits if_splits)
  from Cons.IH [OF rest] d plain_not_special [OF pl] show ?case
    by simp
qed

lemma getPath_root:
  "parent (dirs s r) = None \<Longrightarrow> getPath s r = Some (name (dirs s r))"
  by (subst getPath.simps) simp

lemma getPath_child:
  "parent (dirs s d) = Some p \<Longrightarrow> getPath s p = Some pp \<Longrightarrow>
     getPath s d = Some (normalize (pp @ ''/'' @ name (dirs s d)))"
  by (subst getPath.simps) simp

lemma getPath_descend:
  assumes "parent (dirs s r) = None" and "name (dirs s r) = ROOT_PATH"
  shows "descend s r ns = Some d \<Longrightarrow> getPath s d = Some (CHR ''/'' # join_slash ns)"
proof (induction ns arbitrary: d rule: rev_induct)
  case Nil
  with assms show ?case
    by (simp add: getPath_root ROOT_PATH_def)
next
  case (snoc n ns)
  from snoc.prems obtain p where p: "descend s r ns = Some p" and pl: "plain n"
    and nm: "name (dirs s d) = n" and par: "parent (dirs s d) = Some p"
    by (rule descend_snoc)
  from getPath_child [OF par snoc.IH [OF p]] nm
  have "getPath s d = Some (normalize ((CHR ''/'' # join_slash ns) @ ''/'' @ n))"
    by simp
  with normalize_step [OF descend_plain [OF p] pl] show ?case
    by simp
qed

lemma getTarget_path:
  assumes root: "getRoot s = Some r" and p: "descend s r ns = Some p" and pl: "plain n"
  shows "getTarget s (CHR ''/'' # join_slash (ns @ [n])) ty =
     Some (case ty of
        DIRECTORY \<Rightarrow> map_option DirectoryNode (map_of (directoriesByName (dirs s p)) n)
      | FILE \<Rightarrow> map_option FileNode (map_of (filesByName (dirs s p)) n))"
proof -
  let ?P = "CHR ''/'' # join_slash (ns @ [n])"
  have pls: "\<forall>w\<in>set ns. plain w"
    using p by (rule descend_plain)
  have n: "n \<noteq> []" "CHR ''/'' \<notin> set n"
    using pl by (simp_all add: plain_nonempty plain_slashfree)
  have ne: "\<forall>w\<in>set ns. w \<noteq> []"
    using pls plain_nonempty by auto
  have "normalize ((CHR ''/'' # join_slash ns) @ ''/'' @ n) = ?P"
    using pls pl by (rule normalize_step)
  have norm: "normalize ?P = ?P"
  proof -
    have "normalize ?P = CHR ''/'' # join_slash (filter (\<lambda>w. w \<noteq> []) (ns @ [n]))"
      by (rule normalize_absolute) (use pls pl in simp_all)
    moreover have "filter (\<lambda>w. w \<noteq> []) (ns @ [n]) = ns @ [n]"
      using ne n by (auto simp: filter_id_conv)
    ultimately show ?thesis
      by simp
  qed
  have jne: "join_slash (ns @ [n]) \<noteq> []"
    by (rule join_slash_last_nonempty) (simp_all add: n)
  then have special: "?P \<notin> set CURRENT_DIR_PATHS" "?P \<noteq> ROOT_PATH" "?P \<notin> set MOVE_UP_PATHS"
    by (simp_all add: CURRENT_DIR_PATHS_def ROOT_PATH_def MOVE_UP_PATHS_def)
  have abs: "isAbsolute ?P"
    by (simp add: isAbsolute_def)
  have segs: "filter (\<lambda>w. w \<noteq> []) (split_slash (dirname ?P)) = ns"
    and base: "basename ?P = n"
  proof -
    show "filter (\<lambda>w. w \<noteq> []) (split_slash (dirname ?P)) = ns"
    proof (cases "ns = []")
      case True
      then show ?thesis
        using dirname_top [OF n] by simp
    next
      case False
      then have q: "join_slash ns \<noteq> []"
        using ne by (intro join_slash_hd_nonempty) auto
      have sf: "\<forall>w\<in>set ns. CHR ''/'' \<notin> set w"
        using pls plain_slashfree by auto
      have "dirname ?P = CHR ''/'' # join_slash ns"
        using dirname_deeper [OF n q] False by (simp add: join_slash_snoc)
      then show ?thesis
        using ne by (simp add: split_join_slash [OF False sf] filter_id_conv)
    qed
    show "basename ?P = n"
    proof (cases "ns = []")
      case True
      then show ?thesis
        using basename_last [OF n, of "[]"] by simp
    next
      case False
      then show ?thesis
        using basename_last [OF n, of "CHR ''/'' # join_slash ns"] by (simp add: join_slash_snoc)
    qed
  qed
  have w: "walk s r ns = Some p"
    using p by (rule walk_descend)
  show ?thesis
    unfolding getTarget_def Let_def norm
    using special by (cases ty) (simp_all add: abs root segs base w)
qed

text \<open>
  C5, as amended. Let the parent links from the current directory lead to the root \<open>r\<close>,
  named \<open>/\<close>, and let the directory \<open>d\<close> be reached from \<open>r\<close> by plain names, each the key and
  the name of a directory whose parent is the directory that lists it. Then \<open>getPath\<close>
  of \<open>d\<close> returns a path, and resolving that path as a directory returns \<open>d\<close>. The same
  holds for a file of plain name that \<open>d\<close> lists under that name and that has \<open>d\<close> as its
  parent: resolving its path as a file returns the file.
\<close>

theorem path_round_trip:
  assumes root: "getRoot s = Some r" and rname: "name (dirs s r) = ROOT_PATH"
    and d: "descend s r ns = Some d"
  shows "(\<exists>p. getPath s d = Some p \<and> getTarget s p DIRECTORY = Some (Some (DirectoryNode d)))
       \<and> (\<forall>n f. plain n \<longrightarrow> map_of (filesByName (dirs s d)) n = Some f
              \<longrightarrow> fname (files s f) = n \<longrightarrow> fparent (files s f) = d
              \<longrightarrow> (\<exists>p. File_getPath s f = Some p
                       \<and> getTarget s p FILE = Some (Some (FileNode f))))"
proof (intro conjI allI impI)
  have rpar: "parent (dirs s r) = None"
    using root unfolding getRoot_def by (rule getRoot_loop_parentless)
  have path: "getPath s d = Some (CHR ''/'' # join_slash ns)"
    using rpar rname d by (rule getPath_descend)
  show "\<exists>p. getPath s d = Some p \<and> getTarget s p DIRECTORY = Some (Some (DirectoryNode d))"
  proof (cases ns rule: rev_cases)
    case Nil
    with d have "d = r"
      by simp
    moreover have "getTarget s ''/'' DIRECTORY = Some (Some (DirectoryNode r))"
      using root by (simp add: getTarget_def CURRENT_DIR_PATHS_def ROOT_PATH_def)
    ultimately show ?thesis
      using path Nil by simp
  next
    case (snoc ms n)
    with d obtain p where p: "descend s r ms = Some p" and pl: "plain n"
      and m: "map_of (directoriesByName (dirs s p)) n = Some d"
      by (auto elim: descend_snoc)
    from getTarget_path [OF root p pl, of DIRECTORY] m path snoc show ?thesis
      by simp
  qed
  fix n f
  assume pl: "plain n" and m: "map_of (filesByName (dirs s d)) n = Some f"
    and fn: "fname (files s f) = n" and fp: "fparent (files s f) = d"
  have "File_getPath s f = Some (normalize ((CHR ''/'' # join_slash ns) @ ''/'' @ n))"
    using path fn fp by (simp add: File_getPath_def)
  then have "File_getPath s f = Some (CHR ''/'' # join_slash (ns @ [n]))"
    using normalize_step [OF descend_plain [OF d] pl] by simp
  with getTarget_path [OF root d pl, of FILE] m
  show "\<exists>p. File_getPath s f = Some p \<and> getTarget s p FILE = Some (Some (FileNode f))"
    by simp
qed

text \<open>The theorem at the directory \<open>/foo/bar\<close> and the file \<open>/foo/bar/foo\<close>.\<close>

theorem path_round_trip_witness:
  "getRoot (final ''/'' new_vfs find_calls) = Some 0
   \<and> name (dirs (final ''/'' new_vfs find_calls) 0) = ROOT_PATH
   \<and> descend (final ''/'' new_vfs find_calls) 0 [''foo'', ''bar''] = Some 2
   \<and> getPath (final ''/'' new_vfs find_calls) 2 = Some ''/foo/bar''
   \<and> getTarget (final ''/'' new_vfs find_calls) ''/foo/bar'' DIRECTORY = Some (Some (DirectoryNode 2))
   \<and> plain ''foo''
   \<and> map_of (filesByName (dirs (final ''/'' new_vfs find_calls) 2)) ''foo'' = Some 0
   \<and> fname (files (final ''/'' new_vfs find_calls) 0) = ''foo''
   \<and> fparent (files (final ''/'' new_vfs find_calls) 0) = 2
   \<and> File_getPath (final ''/'' new_vfs find_calls) 0 = Some ''/foo/bar/foo''
   \<and> getTarget (final ''/'' new_vfs find_calls) ''/foo/bar/foo'' FILE = Some (Some (FileNode 0))"
proof -
  let ?s = "final ''/'' new_vfs find_calls"
  have h1: "getRoot ?s = Some 0" by code_simp
  have h2: "name (dirs ?s 0) = ROOT_PATH" by code_simp
  have h3: "descend ?s 0 [''foo'', ''bar''] = Some 2" by code_simp
  have h4: "plain ''foo''" by code_simp
  have h5: "map_of (filesByName (dirs ?s 2)) ''foo'' = Some 0" by code_simp
  have h6: "fname (files ?s 0) = ''foo''" and h7: "fparent (files ?s 0) = 2" by code_simp+
  have g: "getPath ?s 2 = Some ''/foo/bar''" and fg: "File_getPath ?s 0 = Some ''/foo/bar/foo''"
    by code_simp+
  from path_round_trip [OF h1 h2 h3] h4 h5 h6 h7 g fg
  have "getTarget ?s ''/foo/bar'' DIRECTORY = Some (Some (DirectoryNode 2))"
    and "getTarget ?s ''/foo/bar/foo'' FILE = Some (Some (FileNode 0))"
    by auto
  with h1 h2 h3 h4 h5 h6 h7 g fg show ?thesis
    by simp
qed

text \<open>
  C5 as stated, for every node, fails for a name that is not plain, and no operation
  checks names: after \<open>makeFile('x')\<close> and \<open>renameFile('x', 'a/b')\<close> the root lists a file
  named \<open>a/b\<close>; its path is \<open>/a/b\<close>, and resolving \<open>/a/b\<close> as a file looks for a directory
  \<open>a\<close> and returns \<open>undefined\<close>.
\<close>

theorem path_of_slash_name_not_resolved:
  "outcomes ''/'' new_vfs slash_name_calls = Some [Inr (), Inr ()]
   \<and> filesByName (dirs (final ''/'' new_vfs slash_name_calls) 0) = [(''a/b'', 0)]
   \<and> fname (files (final ''/'' new_vfs slash_name_calls) 0) = ''a/b''
   \<and> fparent (files (final ''/'' new_vfs slash_name_calls) 0) = 0
   \<and> getRoot (final ''/'' new_vfs slash_name_calls) = Some 0
   \<and> File_getPath (final ''/'' new_vfs slash_name_calls) 0 = Some ''/a/b''
   \<and> getTarget (final ''/'' new_vfs slash_name_calls) ''/a/b'' FILE = Some None"
  by (intro conjI; code_simp)

end
